theory Spec2Isabelle
  imports Main "HOL-Library.Word"
begin

unbundle bit_operations_syntax

section \<open>Machine types and external collaborators\<close>

type_synonym byte = "8 word"
type_synonym u32 = "32 word"
type_synonym u64 = "64 word"

text \<open>
  \<^verbatim>\<open>blake2s_update(&state, &nonce, 8)\<close> feeds the hash the eight bytes of the object
  representation of a \<^verbatim>\<open>uint64_t\<close>, in ascending address order. Which byte of the value
  lies at the lowest address is fixed by the host, so the byte order is a parameter of the
  model.
\<close>

datatype endianness = LittleEndian | BigEndian

definition le_bytes :: "u64 \<Rightarrow> byte list" where
  "le_bytes n = map (\<lambda>i. ucast (drop_bit (8 * i) n)) [0..<8]"

definition object_bytes :: "endianness \<Rightarrow> u64 \<Rightarrow> byte list" where
  "object_bytes e n = (case e of LittleEndian \<Rightarrow> le_bytes n | BigEndian \<Rightarrow> rev (le_bytes n))"

text \<open>
  Modelled from the spec: \<^verbatim>\<open>blake2s_ref.h\<close> is not among the sources. The spec only says
  that a fixed digest function is applied to the bytes fed to it, in the order they are
  fed. The streaming state is the byte sequence absorbed so far; the digest function itself
  is the parameter \<open>H\<close> of \<open>blake2s_final\<close>.
\<close>

type_synonym blake2s_state = "byte list"

definition blake2s_init :: blake2s_state where
  "blake2s_init = []"

definition blake2s_update :: "blake2s_state \<Rightarrow> byte list \<Rightarrow> blake2s_state" where
  "blake2s_update st bs = st @ bs"

definition blake2s_final :: "(byte list \<Rightarrow> byte list) \<Rightarrow> blake2s_state \<Rightarrow> byte list" where
  "blake2s_final H st = H st"

section \<open>The reference search of one lane: \<^verbatim>\<open>ref_search_nonce\<close>\<close>

text \<open>
  The bytes the two \<^verbatim>\<open>blake2s_update\<close> calls of \<^verbatim>\<open>ref_search_nonce\<close> feed: the nonce, then
  \<^verbatim>\<open>(320 - 64 + last_block_size) - 8\<close> bytes starting at \<^verbatim>\<open>buf\<close>. The length is computed in
  32-bit unsigned arithmetic (\<^verbatim>\<open>last_block_size\<close> is a \<^verbatim>\<open>uint32_t\<close>).
\<close>

definition ref_hash_input :: "endianness \<Rightarrow> u64 \<Rightarrow> byte list \<Rightarrow> u32 \<Rightarrow> blake2s_state" where
  "ref_hash_input e nonce buf last_block_size =
     blake2s_update (blake2s_update blake2s_init (object_bytes e nonce))
       (take (unat ((320 - 64 + last_block_size) - 8)) buf)"

text \<open>
  The memory behind \<^verbatim>\<open>result_ptr\<close> is a store from slot index to byte. \<open>evaluated\<close> is a
  log of the nonces hashed so far, in the order of the \<^verbatim>\<open>blake2s_final\<close> calls.
\<close>

record lane_state =
  result :: "u64 \<Rightarrow> byte"
  evaluated :: "u64 list"

text \<open>
  Modelled from the spec: \<^verbatim>\<open>common.h\<close> with \<^verbatim>\<open>compare_uint256\<close> is not among the sources. The
  comparator is the parameter \<open>cmp\<close>, applied to target and hash, returning a C \<^verbatim>\<open>int\<close>;
  the assignment to a \<^verbatim>\<open>uint8_t\<close> slot truncates it.
\<close>

function ref_search_loop ::
  "(byte list \<Rightarrow> byte list) \<Rightarrow> (byte list \<Rightarrow> byte list \<Rightarrow> int) \<Rightarrow> endianness \<Rightarrow>
   u64 \<Rightarrow> u64 \<Rightarrow> u64 \<Rightarrow> byte list \<Rightarrow> u32 \<Rightarrow> byte list \<Rightarrow> u64 \<Rightarrow> lane_state \<Rightarrow> lane_state" where
  "ref_search_loop H cmp e gid nonce0 work_set buf last_block_size target_hash i st =
     (if i < work_set then
        let nonce = nonce0 + i;
            hash = blake2s_final H (ref_hash_input e nonce buf last_block_size);
            st' = st\<lparr>result := (result st)(gid * work_set + i := word_of_int (cmp target_hash hash)),
                     evaluated := evaluated st @ [nonce]\<rparr>
        in ref_search_loop H cmp e gid nonce0 work_set buf last_block_size target_hash (i + 1) st'
      else st)"
  by pat_completeness auto
termination
proof (relation "measure (\<lambda>(H, cmp, e, gid, nonce0, work_set, buf, lbs, target_hash, i, st).
                            unat work_set - unat i)")
  show "wf (measure (\<lambda>(H :: byte list \<Rightarrow> byte list, cmp :: byte list \<Rightarrow> byte list \<Rightarrow> int,
            e :: endianness, gid :: u64, nonce0 :: u64, work_set :: u64, buf :: byte list,
            lbs :: u32, target_hash :: byte list, i :: u64, st :: lane_state).
            unat work_set - unat i))"
    by simp
next
  fix H :: "byte list \<Rightarrow> byte list" and cmp :: "byte list \<Rightarrow> byte list \<Rightarrow> int"
    and e :: endianness and gid nonce0 work_set :: u64 and buf :: "byte list" and lbs :: u32
    and target_hash :: "byte list" and i :: u64 and st :: lane_state
    and x xa xb
  assume lt: "i < work_set"
  then have lt': "unat i < unat work_set"
    by (simp add: word_less_nat_alt)
  have "unat work_set < 2 ^ 64"
    using unsigned_less [of work_set] by simp
  with lt' have "(unat i + 1) mod 2 ^ 64 = Suc (unat i)"
    by simp
  then have "unat (i + 1) = Suc (unat i)"
    by (simp add: unat_word_ariths)
  moreover note lt'
  ultimately show "((H, cmp, e, gid, nonce0, work_set, buf, lbs, target_hash, i + 1, xb),
          (H, cmp, e, gid, nonce0, work_set, buf, lbs, target_hash, i, st))
          \<in> measure (\<lambda>(H, cmp, e, gid, nonce0, work_set, buf, lbs, target_hash, i, st).
                            unat work_set - unat i)"
    by simp
qed

declare ref_search_loop.simps [simp del]

definition ref_search_nonce ::
  "(byte list \<Rightarrow> byte list) \<Rightarrow> (byte list \<Rightarrow> byte list \<Rightarrow> int) \<Rightarrow> endianness \<Rightarrow>
   u64 \<Rightarrow> u64 \<Rightarrow> u64 \<Rightarrow> byte list \<Rightarrow> u32 \<Rightarrow> byte list \<Rightarrow> lane_state \<Rightarrow> lane_state" where
  "ref_search_nonce H cmp e gid start_nonce work_set buf last_block_size target_hash st =
     (let nonce0 = start_nonce + gid * work_set
      in ref_search_loop H cmp e gid nonce0 work_set buf last_block_size target_hash 0 st)"

section \<open>Ways in which a run ends early\<close>

datatype failure =
    UsageExit          \<comment> \<open>\<^verbatim>\<open>usage(); exit(1)\<close>\<close>
  | InvalidArgument    \<comment> \<open>\<^verbatim>\<open>std::invalid_argument\<close> thrown by \<^verbatim>\<open>std::stoi\<close>, never caught\<close>
  | OutOfRange         \<comment> \<open>\<^verbatim>\<open>std::out_of_range\<close> thrown by \<^verbatim>\<open>std::stoi\<close>, never caught\<close>
  | AssertionFailed    \<comment> \<open>an \<^verbatim>\<open>assert\<close> that does not hold (assertions are compiled in)\<close>
  | NullDereference    \<comment> \<open>a null pointer handed to \<^verbatim>\<open>strlen\<close> or \<^verbatim>\<open>fread\<close>\<close>
  | BadNonce           \<comment> \<open>\<^verbatim>\<open>exit(-1)\<close> after the message Bad nonce\<close>

datatype process_end = Exited byte | Killed

fun process_end_of :: "failure \<Rightarrow> process_end" where
  "process_end_of UsageExit = Exited 1"
| "process_end_of BadNonce = Exited (word_of_int (- 1))"
| "process_end_of InvalidArgument = Killed"
| "process_end_of OutOfRange = Killed"
| "process_end_of AssertionFailed = Killed"
| "process_end_of NullDereference = Killed"

section \<open>Option parsing\<close>

text \<open>
  \<^verbatim>\<open>std::stoi(str, 0, base)\<close> as the C++ library defines it through \<^verbatim>\<open>strtol\<close>: leading
  white space is skipped, an optional sign is read, in base 16 an optional \<^verbatim>\<open>0x\<close> prefix,
  then the longest run of digits of the base. No digit at all throws
  \<^verbatim>\<open>std::invalid_argument\<close>; a value outside the range of \<^verbatim>\<open>int\<close> throws
  \<^verbatim>\<open>std::out_of_range\<close>.
\<close>

definition isspace :: "char \<Rightarrow> bool" where
  "isspace c = (let k = (of_char c :: nat) in k = 32 \<or> (9 \<le> k \<and> k \<le> 13))"

definition digit_value :: "char \<Rightarrow> nat option" where
  "digit_value c =
     (let k = (of_char c :: nat)
      in if 48 \<le> k \<and> k \<le> 57 then Some (k - 48)
         else if 97 \<le> k \<and> k \<le> 122 then Some (k - 87)
         else if 65 \<le> k \<and> k \<le> 90 then Some (k - 55)
         else None)"

definition is_digit :: "nat \<Rightarrow> char \<Rightarrow> bool" where
  "is_digit base c = (case digit_value c of None \<Rightarrow> False | Some d \<Rightarrow> d < base)"

fun digits_value :: "nat \<Rightarrow> int \<Rightarrow> string \<Rightarrow> int" where
  "digits_value base acc [] = acc"
| "digits_value base acc (c # cs) =
     (case digit_value c of
        None \<Rightarrow> acc
      | Some d \<Rightarrow> if d < base then digits_value base (acc * int base + int d) cs else acc)"

fun skip_sign :: "string \<Rightarrow> bool \<times> string" where
  "skip_sign [] = (False, [])"
| "skip_sign (c # cs) =
     (if c = CHR ''-'' then (True, cs)
      else if c = CHR ''+'' then (False, cs)
      else (False, c # cs))"

fun skip_hex_prefix :: "nat \<Rightarrow> string \<Rightarrow> string" where
  "skip_hex_prefix base (z # x # d # cs) =
     (if base = 16 \<and> z = CHR ''0'' \<and> (x = CHR ''x'' \<or> x = CHR ''X'') \<and> is_digit 16 d
      then d # cs else z # x # d # cs)"
| "skip_hex_prefix base cs = cs"

definition stoi :: "nat \<Rightarrow> string \<Rightarrow> failure + u32" where
  "stoi base str =
     (let (negative, rest) = skip_sign (dropWhile isspace str);
          body = skip_hex_prefix base rest
      in if takeWhile (is_digit base) body = [] then Inl InvalidArgument
         else let magnitude = digits_value base 0 body;
                  v = (if negative then - magnitude else magnitude)
              in if v < - (2 ^ 31) \<or> 2 ^ 31 - 1 < v then Inl OutOfRange
                 else Inr (word_of_int v))"

text \<open>
  The variables the option loop of \<^verbatim>\<open>main\<close> sets. An \<^verbatim>\<open>int\<close> is a 32-bit word read as
  two's complement. \<^verbatim>\<open>nonceOverridden\<close> and \<^verbatim>\<open>nonceOverride\<close> are one optional value: the
  second is only read when the first is set.
\<close>

record options =
  quiet :: bool
  deviceOverride :: u32
  platformOverride :: u32
  localWorkSize :: u32
  workSetSize :: u32
  globalSize :: u32
  nonceOverride :: "u64 option"
  kernelPath :: "string option"
  alternativeNonce :: bool

definition default_options :: options where
  "default_options =
     \<lparr> quiet = True, deviceOverride = 0, platformOverride = word_of_int (- 1),
       localWorkSize = 256, workSetSize = 64, globalSize = 1024 * 1024 * 16,
       nonceOverride = None, kernelPath = None, alternativeNonce = False \<rparr>"

text \<open>
  One round of the \<^verbatim>\<open>getopt\<close> loop: the option character \<^verbatim>\<open>getopt\<close> returned and its
  \<^verbatim>\<open>optarg\<close>. The assignment \<^verbatim>\<open>nonceOverride = std::stoi(optarg, 0, 16)\<close> converts the
  \<^verbatim>\<open>int\<close> to \<^verbatim>\<open>uint64_t\<close>, which extends the sign.
\<close>

definition apply_option :: "options \<Rightarrow> char \<times> string \<Rightarrow> failure + options" where
  "apply_option opts oa =
     (let (opt, optarg) = oa
      in if opt = CHR ''d'' then
           (case stoi 10 optarg of Inl f \<Rightarrow> Inl f | Inr v \<Rightarrow> Inr (opts\<lparr>deviceOverride := v\<rparr>))
         else if opt = CHR ''p'' then
           (case stoi 10 optarg of Inl f \<Rightarrow> Inl f | Inr v \<Rightarrow> Inr (opts\<lparr>platformOverride := v\<rparr>))
         else if opt = CHR ''l'' then
           (case stoi 10 optarg of Inl f \<Rightarrow> Inl f | Inr v \<Rightarrow> Inr (opts\<lparr>localWorkSize := v\<rparr>))
         else if opt = CHR ''w'' then
           (case stoi 10 optarg of Inl f \<Rightarrow> Inl f | Inr v \<Rightarrow> Inr (opts\<lparr>workSetSize := v\<rparr>))
         else if opt = CHR ''g'' then
           (case stoi 10 optarg of Inl f \<Rightarrow> Inl f | Inr v \<Rightarrow> Inr (opts\<lparr>globalSize := v\<rparr>))
         else if opt = CHR ''k'' then Inr (opts\<lparr>kernelPath := Some optarg\<rparr>)
         else if opt = CHR ''f'' then Inr (opts\<lparr>alternativeNonce := True\<rparr>)
         else if opt = CHR ''v'' then Inr (opts\<lparr>quiet := False\<rparr>)
         else if opt = CHR ''n'' then
           (case stoi 16 optarg of
              Inl f \<Rightarrow> Inl f
            | Inr v \<Rightarrow> Inr (opts\<lparr>nonceOverride := Some (scast v)\<rparr>))
         else Inl UsageExit)"

fun parse_options :: "options \<Rightarrow> (char \<times> string) list \<Rightarrow> failure + options" where
  "parse_options opts [] = Inr opts"
| "parse_options opts (oa # oas) =
     (case apply_option opts oa of Inl f \<Rightarrow> Inl f | Inr opts' \<Rightarrow> parse_options opts' oas)"

section \<open>Target and header input\<close>

text \<open>
  \<^verbatim>\<open>hexchar2int\<close> lives in \<^verbatim>\<open>common.h\<close>, which is not among the sources; it is the parameter
  \<open>hexchar2int\<close> here.
\<close>

definition read_target_bytes :: "(char \<Rightarrow> byte) \<Rightarrow> string \<Rightarrow> failure + byte list" where
  "read_target_bytes hexchar2int str =
     (if length str \<noteq> 64 then Inl AssertionFailed
      else Inr (map (\<lambda>i. push_bit 4 (hexchar2int (str ! (2 * i))) OR hexchar2int (str ! (2 * i + 1)))
                  [0..<32]))"

definition BUF_SIZE :: nat where
  "BUF_SIZE = 4 * 1024"

definition memset :: "byte list \<Rightarrow> nat \<Rightarrow> byte \<Rightarrow> nat \<Rightarrow> byte list" where
  "memset buf off v n = take off buf @ replicate n v @ drop (off + n) buf"

text \<open>
  \<open>buf0\<close> is what the uninitialised array \<^verbatim>\<open>buf\<close> holds before \<^verbatim>\<open>fread\<close>; \<open>input\<close> is the
  whole of standard input. \<^verbatim>\<open>fread\<close> stores at most \<^verbatim>\<open>BUF_SIZE\<close> bytes and returns their
  number. The three \<^verbatim>\<open>assert\<close>s follow in the order of the source.
\<close>

definition read_header :: "byte list \<Rightarrow> byte list \<Rightarrow> failure + (byte list \<times> nat \<times> u32)" where
  "read_header buf0 input =
     (let bufsize = min (length input) BUF_SIZE;
          buf = take bufsize input @ drop bufsize buf0
      in if \<not> 8 \<le> bufsize then Inl AssertionFailed
         else if \<not> bufsize < BUF_SIZE then Inl AssertionFailed
         else if \<not> (320 - 64 + 1 \<le> bufsize \<and> bufsize \<le> 320) then Inl AssertionFailed
         else let last_block_size = (of_nat bufsize - (320 - 64) :: u32)
              in Inr (memset buf (256 + unat last_block_size) 0 (unat (64 - last_block_size)),
                      bufsize, last_block_size))"

section \<open>The start nonce\<close>

definition word_of_le_bytes :: "byte list \<Rightarrow> u64" where
  "word_of_le_bytes bs = foldr (\<lambda>b w. ucast b OR push_bit 8 w) bs 0"

definition word_of_object_bytes :: "endianness \<Rightarrow> byte list \<Rightarrow> u64" where
  "word_of_object_bytes e bs =
     (case e of LittleEndian \<Rightarrow> word_of_le_bytes bs | BigEndian \<Rightarrow> word_of_le_bytes (rev bs))"

text \<open>
  \<open>urandom\<close> is \<open>None\<close> when \<^verbatim>\<open>fopen\<close> returns a null stream, and otherwise the bytes the
  stream can deliver. \<^verbatim>\<open>fread(&start_nonce, 1, 8, urandom)\<close> overwrites as many leading
  bytes of the object as it obtains, at most eight; its return value is not looked at.
  \<^verbatim>\<open>start_nonce\<close> was initialised to 0.
\<close>

definition initial_start_nonce :: "endianness \<Rightarrow> u64 option \<Rightarrow> byte list option \<Rightarrow> failure + u64" where
  "initial_start_nonce e override urandom =
     (case override of
        Some v \<Rightarrow> Inr v
      | None \<Rightarrow>
          (case urandom of
             None \<Rightarrow> Inl NullDereference
           | Some delivered \<Rightarrow>
               (let got = take 8 delivered
                in Inr (word_of_object_bytes e (got @ drop (length got) (object_bytes e 0))))))"

section \<open>The search loop and the verification of a candidate\<close>

text \<open>The bytes \<^verbatim>\<open>main\<close> feeds the hash when it checks the nonce the backend reported.\<close>

definition verify_hash_input :: "endianness \<Rightarrow> bool \<Rightarrow> u64 \<Rightarrow> byte list \<Rightarrow> nat \<Rightarrow> blake2s_state" where
  "verify_hash_input e alt found buf bufsize =
     (if alt then
        blake2s_update (blake2s_update blake2s_init (take (bufsize - 8) buf)) (object_bytes e found)
      else
        blake2s_update (blake2s_update blake2s_init (object_bytes e found))
          (take (bufsize - 8) (drop 8 buf)))"

datatype outcome =
    Printed u64 u64    \<comment> \<open>the nonce and \<^verbatim>\<open>numHashes\<close> written to standard output; \<^verbatim>\<open>return 0\<close>\<close>
  | Failed failure
  | StillSearching     \<comment> \<open>the loop has not ended within the rounds looked at\<close>

text \<open>
  \<^verbatim>\<open>opencl_backend\<close> is not among the sources. \<^verbatim>\<open>continue_search\<close> is a method of a stateful
  object, so its answer may depend on the calls made before: the parameter
  \<open>continue_search\<close> receives the start nonces dispatched so far and the current one.
  The loop of \<^verbatim>\<open>main\<close> has no exit but \<^verbatim>\<open>break\<close> and \<^verbatim>\<open>exit\<close>; \<open>fuel\<close> bounds the rounds
  looked at. \<open>steps\<close> counts rounds (an \<^verbatim>\<open>int\<close> in the source, which 2^31 rounds would
  overflow); \<open>dispatched\<close> logs the start nonce of every window handed to the backend.
  The hash rate printed last is floating point and left out, and so are the diagnostics
  that \<^verbatim>\<open>-v\<close> sends to standard error (among them the candidate, before it is checked):
  \<open>Printed\<close> is what reaches standard output.
\<close>

fun search_loop ::
  "nat \<Rightarrow> (byte list \<Rightarrow> byte list) \<Rightarrow> (byte list \<Rightarrow> byte list \<Rightarrow> int) \<Rightarrow> endianness \<Rightarrow>
   (u64 list \<Rightarrow> u64 \<Rightarrow> u64) \<Rightarrow> bool \<Rightarrow> byte list \<Rightarrow> nat \<Rightarrow> byte list \<Rightarrow> u64 \<Rightarrow>
   u64 \<Rightarrow> nat \<Rightarrow> u64 list \<Rightarrow> outcome \<times> u64 list" where
  "search_loop 0 H cmp e continue_search alt buf bufsize target_hash nonce_step_size
     start_nonce steps dispatched = (StillSearching, dispatched)"
| "search_loop (Suc fuel) H cmp e continue_search alt buf bufsize target_hash nonce_step_size
     start_nonce steps dispatched =
     (let steps' = steps + 1;
          found = continue_search dispatched start_nonce;
          dispatched' = dispatched @ [start_nonce]
      in if found \<noteq> 0 then
           let hash = blake2s_final H (verify_hash_input e alt found buf bufsize)
           in if cmp target_hash hash = - 1 then (Failed BadNonce, dispatched')
              else (Printed found (of_nat steps' * nonce_step_size), dispatched')
         else search_loop fuel H cmp e continue_search alt buf bufsize target_hash nonce_step_size
                (start_nonce + nonce_step_size) steps' dispatched')"

section \<open>The program\<close>

text \<open>
  \<open>optv\<close> is the sequence of options \<^verbatim>\<open>getopt\<close> yields, \<open>args\<close> the arguments from
  \<^verbatim>\<open>argv[optind]\<close> on; \<^verbatim>\<open>argc == 1\<close> means both are empty. \<^verbatim>\<open>size_t\<close> is 64 bits wide:
  the conversion of the \<^verbatim>\<open>int\<close> sizes extends the sign. Setting up the backend
  (\<^verbatim>\<open>opencl_backend\<close>'s constructor and \<^verbatim>\<open>start_search\<close>) is taken to succeed.
\<close>

definition nonce_step_size_of :: "options \<Rightarrow> u64" where
  "nonce_step_size_of opts =
     (let global_size = (scast (globalSize opts) :: u64);
          workset_size = (scast (workSetSize opts) :: u64)
      in global_size * workset_size)"

definition main ::
  "nat \<Rightarrow> (byte list \<Rightarrow> byte list) \<Rightarrow> (byte list \<Rightarrow> byte list \<Rightarrow> int) \<Rightarrow> (char \<Rightarrow> byte) \<Rightarrow>
   endianness \<Rightarrow> (u64 list \<Rightarrow> u64 \<Rightarrow> u64) \<Rightarrow> byte list option \<Rightarrow> byte list \<Rightarrow>
   (char \<times> string) list \<Rightarrow> string list \<Rightarrow> byte list \<Rightarrow> outcome \<times> u64 list" where
  "main fuel H cmp hexchar2int e continue_search urandom buf0 optv args input =
     (if optv = [] \<and> args = [] then (Failed UsageExit, [])
      else case parse_options default_options optv of
        Inl f \<Rightarrow> (Failed f, [])
      | Inr opts \<Rightarrow>
          (case args of
             [] \<Rightarrow> (Failed NullDereference, [])
           | target_str # _ \<Rightarrow>
               (case read_target_bytes hexchar2int target_str of
                  Inl f \<Rightarrow> (Failed f, [])
                | Inr target_hash \<Rightarrow>
                    (case read_header buf0 input of
                       Inl f \<Rightarrow> (Failed f, [])
                     | Inr (buf, bufsize, last_block_size) \<Rightarrow>
                         (case initial_start_nonce e (nonceOverride opts) urandom of
                            Inl f \<Rightarrow> (Failed f, [])
                          | Inr start_nonce \<Rightarrow>
                              search_loop fuel H cmp e continue_search (alternativeNonce opts)
                                buf bufsize target_hash (nonce_step_size_of opts)
                                start_nonce 0 [])))))"

section \<open>The contracts the specification words\<close>

text \<open>
  The Hash Oracle in the words of the specification: in prefix mode the digest function is
  applied to the 8 bytes of the nonce followed by header bytes \<open>[8, L)\<close>, in suffix mode to
  header bytes \<open>[0, L - 8)\<close> followed by the 8 bytes of the nonce.
\<close>

datatype embedding = Prefix | Suffix

definition header_bytes :: "byte list \<Rightarrow> nat \<Rightarrow> nat \<Rightarrow> byte list" where
  "header_bytes header a b = map (\<lambda>i. header ! i) [a..<b]"

definition hash_oracle_input :: "endianness \<Rightarrow> embedding \<Rightarrow> u64 \<Rightarrow> byte list \<Rightarrow> nat \<Rightarrow> byte list" where
  "hash_oracle_input e mode nonce header L =
     (case mode of
        Prefix \<Rightarrow> object_bytes e nonce @ header_bytes header 8 L
      | Suffix \<Rightarrow> header_bytes header 0 (L - 8) @ object_bytes e nonce)"

definition hash_oracle ::
  "(byte list \<Rightarrow> byte list) \<Rightarrow> endianness \<Rightarrow> embedding \<Rightarrow> u64 \<Rightarrow> byte list \<Rightarrow> nat \<Rightarrow> byte list" where
  "hash_oracle H e mode nonce header L = H (hash_oracle_input e mode nonce header L)"

definition embedding_of :: "bool \<Rightarrow> embedding" where
  "embedding_of alt = (if alt then Suffix else Prefix)"

text \<open>
  A digest passes when the comparator does not answer \<^verbatim>\<open>-1\<close>, the one value \<^verbatim>\<open>main\<close> tests
  for.
\<close>

definition passes :: "(byte list \<Rightarrow> byte list \<Rightarrow> int) \<Rightarrow> byte list \<Rightarrow> byte list \<Rightarrow> bool" where
  "passes cmp target_hash hash = (cmp target_hash hash \<noteq> - 1)"

text \<open>
  A search window \<open>[start, start + W)\<close> of the 64-bit nonce domain, as the list of its
  nonces in increasing order and as a set.
\<close>

definition window_nonces :: "u64 \<Rightarrow> nat \<Rightarrow> u64 list" where
  "window_nonces start W = map (\<lambda>m. start + of_nat m) [0..<W]"

definition window :: "u64 \<Rightarrow> nat \<Rightarrow> u64 set" where
  "window start W = set (window_nonces start W)"

text \<open>
  The start of the \<open>k\<close>-th window (counting from 0) of a run that begins at \<open>s0\<close> with
  window size \<open>W\<close>, in the 64-bit arithmetic of the nonce domain.
\<close>

definition window_start :: "u64 \<Rightarrow> u64 \<Rightarrow> nat \<Rightarrow> u64" where
  "window_start s0 W k = s0 + of_nat k * W"

text \<open>
  Modelled from the spec: \<^verbatim>\<open>opencl_backend::continue_search\<close> is not among the sources. The
  specification's \<open>dispatchWindow\<close> evaluates the Hash Oracle on every nonce of the window
  and returns the first satisfying nonce under the comparator, or the sentinel that means
  none was found; the sentinel is the value 0.
\<close>

definition dispatchWindow ::
  "(byte list \<Rightarrow> byte list) \<Rightarrow> (byte list \<Rightarrow> byte list \<Rightarrow> int) \<Rightarrow> endianness \<Rightarrow> embedding \<Rightarrow>
   byte list \<Rightarrow> nat \<Rightarrow> byte list \<Rightarrow> nat \<Rightarrow> u64 list \<Rightarrow> u64 \<Rightarrow> u64" where
  "dispatchWindow H cmp e mode header L target_hash W earlier start_nonce =
     (case find (\<lambda>n. passes cmp target_hash (hash_oracle H e mode n header L))
             (window_nonces start_nonce W) of
        None \<Rightarrow> 0
      | Some n \<Rightarrow> n)"

text \<open>
  Modelled from the spec: \<^verbatim>\<open>compare_uint256\<close> is not among the sources. The Digest Comparator
  reads both values as big-endian unsigned integers and passes exactly when the candidate is
  at most the target. Of its C result only the failing value \<^verbatim>\<open>-1\<close> is known from
  \<^verbatim>\<open>main\<close>; a pass is rendered as 1.
\<close>

definition big_endian_value :: "byte list \<Rightarrow> nat" where
  "big_endian_value bs = foldl (\<lambda>acc b. acc * 256 + unat b) 0 bs"

definition digest_comparator :: "byte list \<Rightarrow> byte list \<Rightarrow> int" where
  "digest_comparator target candidate =
     (if big_endian_value candidate \<le> big_endian_value target then 1 else - 1)"

subsection \<open>Concrete data for worked examples\<close>

text \<open>
  A header of the minimum valid length 257, a target string of 64 hexadecimal digits, the
  usual reading of a hexadecimal digit, an array content before the read, and a stand-in
  for the digest function that returns 32 zero bytes on every input and one that returns
  32 bytes \<open>0xFF\<close>, a backend that answers every dispatch with the same value and one that
  never finds anything. The properties below hold for every digest function and backend;
  the stand-ins only serve to run the model.
\<close>

definition sample_header :: "byte list" where
  "sample_header = map of_nat [0..<257]"

definition sample_target_str :: string where
  "sample_target_str = replicate 64 (CHR ''f'')"

definition sample_hexchar2int :: "char \<Rightarrow> byte" where
  "sample_hexchar2int c = (case digit_value c of None \<Rightarrow> 0 | Some d \<Rightarrow> of_nat d)"

definition sample_buf0 :: "byte list" where
  "sample_buf0 = replicate 4096 170"

definition zero_digest :: "byte list \<Rightarrow> byte list" where
  "zero_digest bs = replicate 32 0"

definition sample_zero_target_str :: string where
  "sample_zero_target_str = replicate 64 (CHR ''0'')"

definition ones_digest :: "byte list \<Rightarrow> byte list" where
  "ones_digest bs = replicate 32 255"

definition reporting_backend :: "u64 \<Rightarrow> u64 list \<Rightarrow> u64 \<Rightarrow> u64" where
  "reporting_backend c earlier start_nonce = c"

definition silent_backend :: "u64 list \<Rightarrow> u64 \<Rightarrow> u64" where
  "silent_backend earlier start_nonce = 0"

section \<open>Properties\<close>

subsection \<open>The nonce override\<close>

text \<open>
  C9. For every 64-bit value supplied as a hexadecimal nonce override the search is to
  start at that value, values from \<open>2^31\<close> on included. The override is parsed with
  \<^verbatim>\<open>std::stoi\<close>, whose result is an \<^verbatim>\<open>int\<close>: given \<^verbatim>\<open>-n 80000000\<close>, that is the value
  \<open>2^31\<close>, the conversion throws \<^verbatim>\<open>std::out_of_range\<close> and the run ends before any
  window is dispatched, whatever the other inputs are.
\<close>

theorem nonce_override_2_31_out_of_range:
  "main fuel H cmp hexchar2int e continue_search urandom buf0
     [(CHR ''n'', ''80000000'')] args input = (Failed OutOfRange, [])"
proof -
  have "stoi 16 ''80000000'' = Inl OutOfRange"
    by code_simp
  then have "parse_options default_options [(CHR ''n'', ''80000000'')] = Inl OutOfRange"
    by (simp add: apply_option_def)
  then show ?thesis
    by (simp add: main_def)
qed

subsection \<open>The header input\<close>

lemma read_header_accepts:
  assumes lo: "257 \<le> length input" and hi: "length input \<le> 320"
  shows "read_header buf0 input =
           Inr (input @ replicate (320 - length input) 0 @ drop 320 buf0,
                length input, of_nat (length input) - 256)"
proof -
  let ?n = "length input"
  have m: "min ?n BUF_SIZE = ?n" using hi by (simp add: BUF_SIZE_def)
  have "unat (of_nat (?n - 256) :: u32) = ?n - 256"
    using hi by (simp add: unat_of_nat del: of_nat_diff)
  then have u1: "unat (of_nat ?n - 256 :: u32) = ?n - 256"
    using lo by simp
  have "unat (of_nat (320 - ?n) :: u32) = 320 - ?n"
    using hi by (simp add: unat_of_nat del: of_nat_diff)
  then have u2: "unat (320 - of_nat ?n :: u32) = 320 - ?n"
    using hi by simp
  have "memset (input @ drop ?n buf0) ?n 0 (320 - ?n)
        = input @ replicate (320 - ?n) 0 @ drop 320 buf0"
    using lo hi by (simp add: memset_def)
  then show ?thesis
    using lo hi by (simp add: read_header_def m u1 u2 BUF_SIZE_def Let_def)
qed

lemma read_header_rejects:
  assumes "\<not> (257 \<le> min (length input) BUF_SIZE \<and> min (length input) BUF_SIZE \<le> 320)"
  shows "read_header buf0 input = Inl AssertionFailed"
  using assms by (auto simp add: read_header_def Let_def)


lemma search_loop_extends:
  "\<exists>xs. snd (search_loop fuel H cmp e cs alt buf bufsize target W s k d) = d @ xs"
proof (induction fuel arbitrary: s k d)
  case 0
  show ?case by simp
next
  case (Suc fuel)
  obtain xs where "snd (search_loop fuel H cmp e cs alt buf bufsize target W (s + W) (k + 1) (d @ [s]))
                   = (d @ [s]) @ xs"
    using Suc.IH by blast
  then show ?case by (simp add: Let_def)
qed

lemma search_loop_Suc_dispatches:
  "snd (search_loop (Suc fuel) H cmp e cs alt buf bufsize target W s k d) \<noteq> []"
proof -
  obtain xs where "snd (search_loop fuel H cmp e cs alt buf bufsize target W (s + W) (k + 1) (d @ [s]))
                   = (d @ [s]) @ xs"
    using search_loop_extends by blast
  then show ?thesis by (simp add: Let_def)
qed

lemma main_reaches_search:
  assumes "parse_options default_options optv = Inr opts"
    and "args = target_str # rest"
    and "read_target_bytes hexchar2int target_str = Inr target_hash"
    and "read_header buf0 input = Inr (buf, bufsize, last_block_size)"
    and "initial_start_nonce e (nonceOverride opts) urandom = Inr start_nonce"
  shows "main fuel H cmp hexchar2int e cs urandom buf0 optv args input =
         search_loop fuel H cmp e cs (alternativeNonce opts) buf bufsize target_hash
           (nonce_step_size_of opts) start_nonce 0 []"
  using assms by (simp add: main_def)

lemma main_header_failure:
  assumes "read_header buf0 input = Inl f"
  shows "\<exists>f'. main fuel H cmp hexchar2int e cs urandom buf0 optv args input = (Failed f', [])"
  using assms by (simp add: main_def split: sum.splits list.splits)

text \<open>
  C7. With \<open>n\<close> the number of bytes \<^verbatim>\<open>fread\<close> stored (the input length, capped at
  \<^verbatim>\<open>BUF_SIZE\<close>): if \<open>257 \<le> n \<le> 320\<close> the header is accepted, the bytes provided are
  unchanged, every byte from offset \<open>n\<close> up to offset 320 is zero, and a run whose options,
  target and start nonce are in order dispatches a window; otherwise an assertion fails and
  the run ends without dispatching any window.
\<close>

theorem header_length_gate:
  "(257 \<le> min (length input) BUF_SIZE \<and> min (length input) BUF_SIZE \<le> 320 \<longrightarrow>
      (\<exists>buf last_block_size.
          read_header buf0 input = Inr (buf, length input, last_block_size) \<and>
          take (length input) buf = input \<and>
          (\<forall>i. length input \<le> i \<and> i < 320 \<longrightarrow> buf ! i = 0) \<and>
          drop 320 buf = drop 320 buf0) \<and>
      (\<forall>opts target_str rest start_nonce fuel.
          parse_options default_options optv = Inr opts \<and> args = target_str # rest \<and>
          length target_str = 64 \<and>
          initial_start_nonce e (nonceOverride opts) urandom = Inr start_nonce \<longrightarrow>
          snd (main (Suc fuel) H cmp hexchar2int e cs urandom buf0 optv args input) \<noteq> []))
   \<and> (\<not> (257 \<le> min (length input) BUF_SIZE \<and> min (length input) BUF_SIZE \<le> 320) \<longrightarrow>
        read_header buf0 input = Inl AssertionFailed \<and>
        (\<forall>fuel. \<exists>f. main fuel H cmp hexchar2int e cs urandom buf0 optv args input = (Failed f, [])))"
proof (intro conjI impI)
  assume ok: "257 \<le> min (length input) BUF_SIZE \<and> min (length input) BUF_SIZE \<le> 320"
  then have lo: "257 \<le> length input" and hi: "length input \<le> 320"
    by (auto simp add: BUF_SIZE_def)
  let ?buf = "input @ replicate (320 - length input) 0 @ drop 320 buf0"
  have rh: "read_header buf0 input = Inr (?buf, length input, of_nat (length input) - 256)"
    using lo hi by (rule read_header_accepts)
  have zero: "\<forall>i. length input \<le> i \<and> i < 320 \<longrightarrow> ?buf ! i = 0"
    by (auto simp add: nth_append)
  have tail: "drop 320 ?buf = drop 320 buf0"
    using hi by simp
  show "\<exists>buf last_block_size.
          read_header buf0 input = Inr (buf, length input, last_block_size) \<and>
          take (length input) buf = input \<and>
          (\<forall>i. length input \<le> i \<and> i < 320 \<longrightarrow> buf ! i = 0) \<and>
          drop 320 buf = drop 320 buf0"
    using rh zero tail by (intro exI [of _ ?buf] exI [of _ "of_nat (length input) - 256"]) simp
  show "\<forall>opts target_str rest start_nonce fuel.
          parse_options default_options optv = Inr opts \<and> args = target_str # rest \<and>
          length target_str = 64 \<and>
          initial_start_nonce e (nonceOverride opts) urandom = Inr start_nonce \<longrightarrow>
          snd (main (Suc fuel) H cmp hexchar2int e cs urandom buf0 optv args input) \<noteq> []"
  proof (intro allI impI)
    fix opts target_str rest start_nonce fuel
    assume st: "parse_options default_options optv = Inr opts \<and> args = target_str # rest \<and>
          length target_str = 64 \<and>
          initial_start_nonce e (nonceOverride opts) urandom = Inr start_nonce"
    then obtain target_hash where "read_target_bytes hexchar2int target_str = Inr target_hash"
      by (simp add: read_target_bytes_def)
    with st rh have "main (Suc fuel) H cmp hexchar2int e cs urandom buf0 optv args input =
         search_loop (Suc fuel) H cmp e cs (alternativeNonce opts) ?buf (length input) target_hash
           (nonce_step_size_of opts) start_nonce 0 []"
      by (intro main_reaches_search) simp_all
    then show "snd (main (Suc fuel) H cmp hexchar2int e cs urandom buf0 optv args input) \<noteq> []"
      using search_loop_Suc_dispatches by metis
  qed
next
  assume bad: "\<not> (257 \<le> min (length input) BUF_SIZE \<and> min (length input) BUF_SIZE \<le> 320)"
  then show rej: "read_header buf0 input = Inl AssertionFailed"
    by (rule read_header_rejects)
  show "\<forall>fuel. \<exists>f. main fuel H cmp hexchar2int e cs urandom buf0 optv args input = (Failed f, [])"
    using main_header_failure [OF rej] by blast
qed

lemma sample_options:
  "parse_options default_options [(CHR ''n'', ''0'')] = Inr (default_options\<lparr>nonceOverride := Some 0\<rparr>)"
proof -
  have "stoi 16 ''0'' = Inr 0"
    by code_simp
  then show ?thesis
    by (simp add: apply_option_def)
qed

theorem header_length_gate_witness:
  "(\<exists>buf last_block_size.
      read_header sample_buf0 sample_header = Inr (buf, 257, last_block_size) \<and>
      take 257 buf = sample_header \<and> buf ! 300 = 0 \<and> drop 320 buf = drop 320 sample_buf0)
   \<and> snd (main 1 zero_digest digest_comparator sample_hexchar2int LittleEndian silent_backend None
        sample_buf0 [(CHR ''n'', ''0'')] [sample_target_str] sample_header) \<noteq> []
   \<and> read_header sample_buf0 (take 256 sample_header) = Inl AssertionFailed"
proof -
  have len: "length sample_header = 257"
    by (simp add: sample_header_def)
  have init: "initial_start_nonce LittleEndian (nonceOverride (default_options\<lparr>nonceOverride := Some 0\<rparr>)) None = Inr 0"
    by (simp add: initial_start_nonce_def)
  have tl: "length sample_target_str = 64"
    by (simp add: sample_target_str_def)
  note g = header_length_gate [of sample_header sample_buf0 "[(CHR ''n'', ''0'')]" "[sample_target_str]"
      LittleEndian None zero_digest digest_comparator sample_hexchar2int silent_backend]
  note b = header_length_gate [of "take 256 sample_header" sample_buf0 "[]" "[]"
      LittleEndian None zero_digest digest_comparator sample_hexchar2int silent_backend]
  have in_range: "257 \<le> min (length sample_header) BUF_SIZE \<and> min (length sample_header) BUF_SIZE \<le> 320"
    by (simp add: len BUF_SIZE_def)
  note a = g [THEN conjunct1, THEN mp, OF in_range]
  from a obtain buf last_block_size where
    rh: "read_header sample_buf0 sample_header = Inr (buf, length sample_header, last_block_size)"
    and tk: "take (length sample_header) buf = sample_header"
    and z: "\<forall>i. length sample_header \<le> i \<and> i < 320 \<longrightarrow> buf ! i = 0"
    and dr: "drop 320 buf = drop 320 sample_buf0"
    by blast
  from z have "buf ! 300 = 0"
    by (simp add: len)
  with rh tk dr have 1: "\<exists>buf last_block_size.
      read_header sample_buf0 sample_header = Inr (buf, 257, last_block_size) \<and>
      take 257 buf = sample_header \<and> buf ! 300 = 0 \<and> drop 320 buf = drop 320 sample_buf0"
    unfolding len by blast
  have "snd (main (Suc 0) zero_digest digest_comparator sample_hexchar2int LittleEndian silent_backend None
        sample_buf0 [(CHR ''n'', ''0'')] [sample_target_str] sample_header) \<noteq> []"
    using a [THEN conjunct2, rule_format, of "default_options\<lparr>nonceOverride := Some 0\<rparr>"
        sample_target_str "[]" 0 0] sample_options init tl
    by blast
  then have 2: "snd (main 1 zero_digest digest_comparator sample_hexchar2int LittleEndian silent_backend None
        sample_buf0 [(CHR ''n'', ''0'')] [sample_target_str] sample_header) \<noteq> []"
    by simp
  have "\<not> (257 \<le> min (length (take 256 sample_header)) BUF_SIZE \<and>
            min (length (take 256 sample_header)) BUF_SIZE \<le> 320)"
    by (simp add: len)
  with b have 3: "read_header sample_buf0 (take 256 sample_header) = Inl AssertionFailed"
    by blast
  from 1 2 3 show ?thesis by blast
qed

subsection \<open>The byte serialisation of a nonce\<close>

lemma byte_split: "ucast (ucast w :: byte) OR push_bit 8 (drop_bit 8 w) = (w :: u64)"
proof (rule bit_word_eqI)
  fix k
  assume k: "k < LENGTH(64)"
  show "bit (ucast (ucast w :: byte) OR push_bit 8 (drop_bit 8 w)) k = bit w k"
  proof (cases "k < 8")
    case True
    then show ?thesis by (simp add: bit_simps)
  next
    case False
    then have "8 + (k - 8) = k" by simp
    with False k show ?thesis by (auto simp add: bit_simps)
  qed
qed

lemma byte_join_low: "(ucast (ucast (b :: byte) OR push_bit 8 (w :: u64)) :: byte) = b"
  by (rule bit_word_eqI) (auto simp add: bit_simps)

lemma le_bytes_from:
  "k \<le> 8 \<Longrightarrow> word_of_le_bytes (map (\<lambda>i. ucast (drop_bit (8 * i) n)) [k..<8]) = drop_bit (8 * k) n"
proof (induction k rule: inc_induct)
  case base
  show ?case by (simp add: word_of_le_bytes_def)
next
  case (step k)
  have "[k..<8] = k # [Suc k..<8]"
    using step.hyps by (simp add: upt_conv_Cons)
  then have "word_of_le_bytes (map (\<lambda>i. ucast (drop_bit (8 * i) n)) [k..<8]) =
        ucast (ucast (drop_bit (8 * k) n) :: byte) OR
        push_bit 8 (word_of_le_bytes (map (\<lambda>i. ucast (drop_bit (8 * i) n)) [Suc k..<8]))"
    by (simp add: word_of_le_bytes_def)
  also have "\<dots> = ucast (ucast (drop_bit (8 * k) n) :: byte) OR
        push_bit 8 (drop_bit 8 (drop_bit (8 * k) n))"
    by (simp add: step.IH add.commute)
  also have "\<dots> = drop_bit (8 * k) n"
    by (rule byte_split)
  finally show ?case .
qed

lemma le_bytes_roundtrip: "word_of_le_bytes (le_bytes n) = n"
  using le_bytes_from [of 0 n] by (simp add: le_bytes_def)

lemma length_le_bytes: "length (le_bytes n) = 8"
  by (simp add: le_bytes_def)

lemma le_bytes_inj: "le_bytes a = le_bytes b \<longleftrightarrow> a = b"
  by (metis le_bytes_roundtrip)

lemma object_bytes_inj: "object_bytes e a = object_bytes e b \<longleftrightarrow> a = b"
  by (cases e) (simp_all add: object_bytes_def le_bytes_inj)

lemma length_object_bytes: "length (object_bytes e n) = 8"
  by (cases e) (simp_all add: object_bytes_def length_le_bytes)

lemma object_bytes_roundtrip: "word_of_object_bytes e (object_bytes e n) = n"
  by (cases e) (simp_all add: object_bytes_def word_of_object_bytes_def le_bytes_roundtrip)

lemma le_bytes_value: "i < 8 \<Longrightarrow> unat (le_bytes n ! i) = unat n div 256 ^ i mod 256"
proof -
  assume "i < 8"
  then have "le_bytes n ! i = ucast (drop_bit (8 * i) n)"
    by (simp add: le_bytes_def)
  then have "unat (le_bytes n ! i) = take_bit 8 (drop_bit (8 * i) (unat n))"
    by (simp only: unsigned_ucast_eq unat_drop_bit_eq) simp
  moreover have "(256 :: nat) ^ i = 2 ^ (8 * i)"
    by (simp add: power_mult)
  ultimately show ?thesis
    by (simp add: drop_bit_eq_div take_bit_eq_mod)
qed

subsection \<open>The entropy source\<close>

lemma search_loop_first_dispatch:
  "\<exists>xs. snd (search_loop (Suc fuel) H cmp e cs alt buf bufsize target W s k d) = d @ s # xs"
proof -
  obtain xs where "snd (search_loop fuel H cmp e cs alt buf bufsize target W (s + W) (k + 1) (d @ [s]))
                   = (d @ [s]) @ xs"
    using search_loop_extends by blast
  then show ?thesis by (simp add: Let_def)
qed

lemma initial_start_nonce_nothing_read: "initial_start_nonce e None (Some []) = Inr 0"
  by (simp add: initial_start_nonce_def object_bytes_roundtrip)

text \<open>
  C8 (as amended). When no override is given and the read from the entropy source delivers
  no byte, the run does not end: \<^verbatim>\<open>start_nonce\<close> keeps its initial value 0 and, once options,
  target and header are in order, the first window is dispatched at nonce 0.
\<close>

theorem entropy_short_read_not_fatal:
  "initial_start_nonce e None (Some []) = Inr 0 \<and>
   (\<forall>opts target_str rest buf bufsize last_block_size fuel.
      parse_options default_options optv = Inr opts \<and> nonceOverride opts = None \<and>
      args = target_str # rest \<and> length target_str = 64 \<and>
      read_header buf0 input = Inr (buf, bufsize, last_block_size) \<longrightarrow>
      (\<exists>xs. snd (main (Suc fuel) H cmp hexchar2int e cs (Some []) buf0 optv args input) = 0 # xs))"
proof (intro conjI allI impI)
  show "initial_start_nonce e None (Some []) = Inr 0"
    by (rule initial_start_nonce_nothing_read)
next
  fix opts target_str rest buf bufsize last_block_size fuel
  assume st: "parse_options default_options optv = Inr opts \<and> nonceOverride opts = None \<and>
      args = target_str # rest \<and> length target_str = 64 \<and>
      read_header buf0 input = Inr (buf, bufsize, last_block_size)"
  then obtain target_hash where "read_target_bytes hexchar2int target_str = Inr target_hash"
    by (simp add: read_target_bytes_def)
  with st have "main (Suc fuel) H cmp hexchar2int e cs (Some []) buf0 optv args input =
         search_loop (Suc fuel) H cmp e cs (alternativeNonce opts) buf bufsize target_hash
           (nonce_step_size_of opts) 0 0 []"
    by (intro main_reaches_search) (simp_all add: initial_start_nonce_nothing_read)
  then show "\<exists>xs. snd (main (Suc fuel) H cmp hexchar2int e cs (Some []) buf0 optv args input) = 0 # xs"
    using search_loop_first_dispatch [of fuel H cmp e cs "alternativeNonce opts" buf bufsize
        target_hash "nonce_step_size_of opts" 0 0 "[]"]
    by simp
qed

lemma sample_header_read:
  "read_header sample_buf0 sample_header =
     Inr (sample_header @ replicate 63 0 @ drop 320 sample_buf0, 257, 1)"
proof -
  have len: "length sample_header = 257"
    by (simp add: sample_header_def)
  then show ?thesis
    using read_header_accepts [of sample_header sample_buf0] by simp
qed

theorem entropy_short_read_not_fatal_witness:
  "\<exists>xs. snd (main 1 zero_digest digest_comparator sample_hexchar2int LittleEndian silent_backend
             (Some []) sample_buf0 [] [sample_target_str] sample_header) = 0 # xs"
proof -
  have "\<exists>xs. snd (main (Suc 0) zero_digest digest_comparator sample_hexchar2int LittleEndian silent_backend
             (Some []) sample_buf0 [] [sample_target_str] sample_header) = 0 # xs"
    using entropy_short_read_not_fatal [of LittleEndian "[]" "[sample_target_str]" sample_buf0
        sample_header zero_digest digest_comparator sample_hexchar2int silent_backend,
        THEN conjunct2, rule_format, of default_options sample_target_str "[]" _ 257 1 0]
      sample_header_read
    by (simp add: default_options_def sample_target_str_def)
  then show ?thesis by simp
qed

text \<open>
  The claim as stated fails: without an override and with an entropy source whose read
  delivers nothing, the run is not ended; it dispatches the window at nonce 0 and is still
  searching after the first round.
\<close>

theorem entropy_failure_counterexample:
  "main 1 zero_digest digest_comparator sample_hexchar2int LittleEndian silent_backend
     (Some []) sample_buf0 [] [sample_target_str] sample_header = (StillSearching, [0])"
proof -
  obtain target_hash where t: "read_target_bytes sample_hexchar2int sample_target_str = Inr target_hash"
    by (simp add: read_target_bytes_def sample_target_str_def)
  have "main 1 zero_digest digest_comparator sample_hexchar2int LittleEndian silent_backend
     (Some []) sample_buf0 [] [sample_target_str] sample_header =
     search_loop 1 zero_digest digest_comparator LittleEndian silent_backend
       (alternativeNonce default_options) (sample_header @ replicate 63 0 @ drop 320 sample_buf0) 257
       target_hash (nonce_step_size_of default_options) 0 0 []"
    using t sample_header_read
    by (intro main_reaches_search) (simp_all add: initial_start_nonce_nothing_read default_options_def)
  then show ?thesis
    by (simp add: silent_backend_def)
qed

subsection \<open>Window arithmetic\<close>

lemma scast_nonneg_unat:
  assumes "0 \<le> sint (x :: u32)"
  shows "unat (scast x :: u64) = nat (sint x)"
proof -
  have "sint x < 2 ^ 31"
    using sint_lt [of x] by simp
  then have "sint x < 2 ^ 64"
    by simp
  with assms have tb: "take_bit 64 (sint x) = sint x"
    by (simp add: take_bit_int_eq_self)
  have "unat (word_of_int (sint x) :: u64) = nat (take_bit 64 (sint x))"
    by (simp only: unsigned_of_int) simp
  with tb show ?thesis
    by (simp only: scast_eq)
qed

lemma positive_sizes_product:
  assumes g: "0 < sint (globalSize opts)" and w: "0 < sint (workSetSize opts)"
  shows "unat (nonce_step_size_of opts) = nat (sint (globalSize opts)) * nat (sint (workSetSize opts))"
    and "unat (nonce_step_size_of opts) < 2 ^ 62"
proof -
  let ?G = "nat (sint (globalSize opts))" and ?K = "nat (sint (workSetSize opts))"
  have G: "unat (scast (globalSize opts) :: u64) = ?G"
    using g by (simp add: scast_nonneg_unat)
  have K: "unat (scast (workSetSize opts) :: u64) = ?K"
    using w by (simp add: scast_nonneg_unat)
  have "?G < 2 ^ 31" "?K < 2 ^ 31"
    using sint_lt [of "globalSize opts"] sint_lt [of "workSetSize opts"] g w by simp_all
  then have "?G * ?K < 2 ^ 31 * 2 ^ 31"
    by (intro mult_strict_mono) simp_all
  then have b: "?G * ?K < 2 ^ 62"
    by simp
  then have "?G * ?K < 2 ^ 64"
    by (rule less_trans) simp
  then have "unat ((scast (globalSize opts) :: u64) * scast (workSetSize opts)) = ?G * ?K"
    using G K by (simp add: unat_word_ariths)
  then show "unat (nonce_step_size_of opts) = ?G * ?K"
    by (simp add: nonce_step_size_of_def)
  with b show "unat (nonce_step_size_of opts) < 2 ^ 62"
    by simp
qed

text \<open>
  C4 (as amended). No configuration is rejected for overflow and the loop has no outcome
  for an exhausted nonce space: the window size is \<open>global_size \<times> workset_size\<close> reduced
  modulo \<open>2^64\<close> (for sizes that are positive \<^verbatim>\<open>int\<close>s the product stays below \<open>2^62\<close> and
  is exact), and after a window without candidate the next one starts at
  \<open>(start_nonce + W) mod 2^64\<close>.
\<close>

theorem window_arithmetic_wraps:
  "unat (nonce_step_size_of opts) =
     (unat (scast (globalSize opts) :: u64) * unat (scast (workSetSize opts) :: u64)) mod 2 ^ 64
   \<and> (0 < sint (globalSize opts) \<and> 0 < sint (workSetSize opts) \<longrightarrow>
        unat (nonce_step_size_of opts) = nat (sint (globalSize opts)) * nat (sint (workSetSize opts)) \<and>
        unat (nonce_step_size_of opts) < 2 ^ 62)
   \<and> (cs d s = 0 \<longrightarrow>
        search_loop (Suc fuel) H cmp e cs alt buf bufsize target W s k d =
          search_loop fuel H cmp e cs alt buf bufsize target W (s + W) (Suc k) (d @ [s]) \<and>
        unat (s + W) = (unat s + unat W) mod 2 ^ 64)"
proof (intro conjI impI)
  show "unat (nonce_step_size_of opts) =
     (unat (scast (globalSize opts) :: u64) * unat (scast (workSetSize opts) :: u64)) mod 2 ^ 64"
    by (simp add: nonce_step_size_of_def unat_word_ariths)
next
  assume "0 < sint (globalSize opts) \<and> 0 < sint (workSetSize opts)"
  then show "unat (nonce_step_size_of opts) = nat (sint (globalSize opts)) * nat (sint (workSetSize opts))"
    and "unat (nonce_step_size_of opts) < 2 ^ 62"
    using positive_sizes_product [of opts] by simp_all
next
  assume "cs d s = 0"
  then show "search_loop (Suc fuel) H cmp e cs alt buf bufsize target W s k d =
          search_loop fuel H cmp e cs alt buf bufsize target W (s + W) (Suc k) (d @ [s])"
    by simp
  show "unat (s + W) = (unat s + unat W) mod 2 ^ 64"
    by (simp add: unat_word_ariths)
qed

theorem window_arithmetic_wraps_witness:
  "unat (nonce_step_size_of default_options) = 1073741824 \<and>
   search_loop 1 zero_digest digest_comparator LittleEndian silent_backend False [] 257 [] 1
     18446744073709551615 0 [] =
   search_loop 0 zero_digest digest_comparator LittleEndian silent_backend False [] 257 [] 1
     0 1 [18446744073709551615]"
proof -
  have s: "0 < sint (globalSize default_options) \<and> 0 < sint (workSetSize default_options)"
    by (simp add: default_options_def)
  have c: "silent_backend [] 18446744073709551615 = 0"
    by (simp add: silent_backend_def)
  note t = window_arithmetic_wraps [of default_options silent_backend "[]" 18446744073709551615
      0 zero_digest digest_comparator LittleEndian False "[]" 257 "[]" 1 0]
  from t s have "unat (nonce_step_size_of default_options) =
      nat (sint (globalSize default_options)) * nat (sint (workSetSize default_options))"
    by blast
  then have 1: "unat (nonce_step_size_of default_options) = 1073741824"
    by (simp add: default_options_def)
  from t c have 2: "search_loop (Suc 0) zero_digest digest_comparator LittleEndian silent_backend False [] 257 [] 1
     18446744073709551615 0 [] =
   search_loop 0 zero_digest digest_comparator LittleEndian silent_backend False [] 257 [] 1
     (18446744073709551615 + 1) (Suc 0) ([] @ [18446744073709551615])"
    by blast
  from 1 2 show ?thesis by simp
qed

lemma all_ones_entropy:
  "initial_start_nonce LittleEndian None (Some (replicate 8 255)) = Inr 18446744073709551615"
  by code_simp

lemma unit_sizes_options:
  "parse_options default_options [(CHR ''g'', ''1''), (CHR ''w'', ''1'')] =
     Inr (default_options\<lparr>workSetSize := 1, globalSize := 1\<rparr>)"
proof -
  have "stoi 10 ''1'' = Inr 1"
    by code_simp
  then show ?thesis
    by (simp add: apply_option_def)
qed

text \<open>
  The claim as stated fails: with sizes 1 and 1 and the start nonce \<open>2^64 - 1\<close> drawn
  from the entropy source, a backend that finds nothing makes the second window start at
  nonce 0; the run neither stops nor reports that the space is exhausted.
\<close>

theorem start_nonce_wraps_counterexample:
  "main 2 zero_digest digest_comparator sample_hexchar2int LittleEndian silent_backend
     (Some (replicate 8 255)) sample_buf0 [(CHR ''g'', ''1''), (CHR ''w'', ''1'')]
     [sample_target_str] sample_header = (StillSearching, [18446744073709551615, 0])"
proof -
  obtain target_hash where t: "read_target_bytes sample_hexchar2int sample_target_str = Inr target_hash"
    by (simp add: read_target_bytes_def sample_target_str_def)
  let ?opts = "default_options\<lparr>workSetSize := 1, globalSize := 1\<rparr>"
  let ?buf = "sample_header @ replicate 63 0 @ drop 320 sample_buf0"
  have "main 2 zero_digest digest_comparator sample_hexchar2int LittleEndian silent_backend
     (Some (replicate 8 255)) sample_buf0 [(CHR ''g'', ''1''), (CHR ''w'', ''1'')]
     [sample_target_str] sample_header =
     search_loop 2 zero_digest digest_comparator LittleEndian silent_backend
       (alternativeNonce ?opts) ?buf 257 target_hash (nonce_step_size_of ?opts)
       18446744073709551615 0 []"
    using t sample_header_read unit_sizes_options all_ones_entropy
    by (intro main_reaches_search) (simp_all add: default_options_def)
  also have "\<dots> = search_loop (Suc (Suc 0)) zero_digest digest_comparator LittleEndian silent_backend
       (alternativeNonce ?opts) ?buf 257 target_hash (nonce_step_size_of ?opts)
       18446744073709551615 0 []"
    by (simp only: numeral_2_eq_2)
  also have "\<dots> = (StillSearching, [18446744073709551615, 0])"
    by (simp add: silent_backend_def nonce_step_size_of_def default_options_def)
  finally show ?thesis .
qed

subsection \<open>The windows of a run\<close>

lemma window_start_Suc: "window_start s W (Suc n) = window_start s W n + W"
  by (simp add: window_start_def algebra_simps)

lemma search_loop_misses:
  assumes "\<forall>j<n. cs (d @ map (window_start s W) [0..<j]) (window_start s W j) = 0"
  shows "search_loop (n + m) H cmp e cs alt buf bufsize target W s k d =
         search_loop m H cmp e cs alt buf bufsize target W (window_start s W n) (k + n)
           (d @ map (window_start s W) [0..<n])"
  using assms
proof (induction n arbitrary: m)
  case 0
  show ?case by (simp add: window_start_def)
next
  case (Suc n)
  have "search_loop (Suc n + m) H cmp e cs alt buf bufsize target W s k d =
        search_loop (n + Suc m) H cmp e cs alt buf bufsize target W s k d"
    by simp
  also have "\<dots> = search_loop (Suc m) H cmp e cs alt buf bufsize target W (window_start s W n) (k + n)
           (d @ map (window_start s W) [0..<n])"
    using Suc.prems by (intro Suc.IH) simp
  also have "\<dots> = search_loop m H cmp e cs alt buf bufsize target W (window_start s W (Suc n)) (k + Suc n)
           (d @ map (window_start s W) [0..<Suc n])"
    using Suc.prems by (simp add: window_start_Suc)
  finally show ?case .
qed

lemma window_nonces_distinct:
  assumes "n \<le> 2 ^ 64"
  shows "distinct (window_nonces s n)"
proof -
  have "inj_on (\<lambda>m. s + (of_nat m :: u64)) {0..<n}"
  proof (rule inj_onI)
    fix a b
    assume a: "a \<in> {0..<n}" and b: "b \<in> {0..<n}" and eq: "s + (of_nat a :: u64) = s + of_nat b"
    from eq have "(of_nat a :: u64) = of_nat b"
      by simp
    then have "take_bit 64 a = take_bit 64 b"
      by (simp add: word_of_nat_eq_iff)
    moreover have "a < 2 ^ 64" "b < 2 ^ 64"
      using a b assms by simp_all
    ultimately show "a = b"
      by (simp add: take_bit_nat_eq_self)
  qed
  then show ?thesis
    by (simp add: window_nonces_def distinct_map)
qed

lemma window_nonces_append:
  "window_nonces s (a + b) = window_nonces s a @ window_nonces (s + of_nat a) b"
proof -
  have "[0..<a + b] = [0..<a] @ [a..<a + b]"
    by (rule upt_add_eq_append) simp
  moreover have "[a..<b + a] = map (\<lambda>m. m + a) [0..<b]"
    by (rule map_add_upt [symmetric])
  then have "[a..<a + b] = map (\<lambda>m. m + a) [0..<b]"
    by (simp only: add.commute [of a b])
  ultimately have "[0..<a + b] = [0..<a] @ map (\<lambda>m. m + a) [0..<b]"
    by (simp only:)
  then show ?thesis
    by (simp add: window_nonces_def o_def add_ac)
qed

text \<open>
  C5. In a run that starts at \<open>s0\<close> with window size \<open>W\<close>, as long as the first \<open>k\<close>
  windows brought no candidate, the \<open>k\<close>-th dispatch (counting from 0) is made and starts
  at \<open>s0 + k \<sqdot> W\<close>, computed as the program does in 64-bit arithmetic. Window \<open>k + 1\<close>
  starts where window \<open>k\<close> ends: the nonces of the two in order are the \<open>2 \<sqdot> W\<close> consecutive
  nonces from the start of window \<open>k\<close>, and for a window size made of two positive \<^verbatim>\<open>int\<close>
  sizes no nonce occurs twice among them.
\<close>

theorem windows_contiguous:
  assumes misses: "\<forall>j<k. cs (map (window_start s0 W) [0..<j]) (window_start s0 W j) = 0"
    and fuel: "k < fuel"
  shows "take (Suc k) (snd (search_loop fuel H cmp e cs alt buf bufsize target W s0 0 []))
           = map (window_start s0 W) [0..<Suc k]
       \<and> window_start s0 W (Suc k) = window_start s0 W k + W
       \<and> window_nonces (window_start s0 W k) (unat W) @ window_nonces (window_start s0 W (Suc k)) (unat W)
           = window_nonces (window_start s0 W k) (2 * unat W)
       \<and> (W = nonce_step_size_of opts \<and> 0 < sint (globalSize opts) \<and> 0 < sint (workSetSize opts) \<longrightarrow>
            unat W = nat (sint (globalSize opts)) * nat (sint (workSetSize opts)) \<and>
            distinct (window_nonces (window_start s0 W k) (2 * unat W)) \<and>
            window (window_start s0 W k) (unat W) \<inter> window (window_start s0 W (Suc k)) (unat W) = {})"
proof (intro conjI impI)
  obtain m where m: "fuel = k + Suc m"
    using fuel by (metis add_Suc_right less_iff_Suc_add)
  have "search_loop fuel H cmp e cs alt buf bufsize target W s0 0 [] =
        search_loop (Suc m) H cmp e cs alt buf bufsize target W (window_start s0 W k) (0 + k)
          ([] @ map (window_start s0 W) [0..<k])"
    unfolding m using misses by (intro search_loop_misses) simp
  moreover obtain xs where
    "snd (search_loop (Suc m) H cmp e cs alt buf bufsize target W (window_start s0 W k) (0 + k)
          ([] @ map (window_start s0 W) [0..<k])) =
     ([] @ map (window_start s0 W) [0..<k]) @ window_start s0 W k # xs"
    using search_loop_first_dispatch by blast
  ultimately have "snd (search_loop fuel H cmp e cs alt buf bufsize target W s0 0 []) =
      map (window_start s0 W) [0..<Suc k] @ xs"
    by simp
  then show "take (Suc k) (snd (search_loop fuel H cmp e cs alt buf bufsize target W s0 0 []))
           = map (window_start s0 W) [0..<Suc k]"
    by simp
next
  show "window_start s0 W (Suc k) = window_start s0 W k + W"
    by (rule window_start_Suc)
next
  show app: "window_nonces (window_start s0 W k) (unat W) @ window_nonces (window_start s0 W (Suc k)) (unat W)
           = window_nonces (window_start s0 W k) (2 * unat W)"
    using window_nonces_append [of "window_start s0 W k" "unat W" "unat W"]
    by (simp add: window_start_Suc mult_2)
  assume pos: "W = nonce_step_size_of opts \<and> 0 < sint (globalSize opts) \<and> 0 < sint (workSetSize opts)"
  then show "unat W = nat (sint (globalSize opts)) * nat (sint (workSetSize opts))"
    using positive_sizes_product(1) [of opts] by simp
  from pos have "unat W < 2 ^ 62"
    using positive_sizes_product(2) [of opts] by simp
  then have "2 * unat W \<le> 2 ^ 64"
    by simp
  then show dist: "distinct (window_nonces (window_start s0 W k) (2 * unat W))"
    by (rule window_nonces_distinct)
  then have "distinct (window_nonces (window_start s0 W k) (unat W) @
                       window_nonces (window_start s0 W (Suc k)) (unat W))"
    using app by simp
  then show "window (window_start s0 W k) (unat W) \<inter> window (window_start s0 W (Suc k)) (unat W) = {}"
    by (simp add: window_def)
qed

theorem windows_contiguous_witness:
  "take 2 (snd (search_loop 2 zero_digest digest_comparator LittleEndian silent_backend False
                  [] 257 [] (nonce_step_size_of default_options) 5 0 []))
     = [5, 5 + nonce_step_size_of default_options]
   \<and> unat (nonce_step_size_of default_options) = 1073741824"
proof -
  let ?W = "nonce_step_size_of default_options"
  have misses: "\<forall>j<Suc 0. silent_backend (map (window_start 5 ?W) [0..<j]) (window_start 5 ?W j) = 0"
    by (simp add: silent_backend_def)
  have pos: "?W = nonce_step_size_of default_options \<and> 0 < sint (globalSize default_options) \<and>
             0 < sint (workSetSize default_options)"
    by (simp add: default_options_def)
  note t = windows_contiguous [of "Suc 0" silent_backend 5 ?W "Suc (Suc 0)" zero_digest
      digest_comparator LittleEndian False "[]" 257 "[]" default_options, OF misses]
  have "take (Suc (Suc 0)) (snd (search_loop (Suc (Suc 0)) zero_digest digest_comparator LittleEndian
          silent_backend False [] 257 [] ?W 5 0 [])) = map (window_start 5 ?W) [0..<Suc (Suc 0)]"
    using t by simp
  then have 1: "take 2 (snd (search_loop 2 zero_digest digest_comparator LittleEndian silent_backend False
                  [] 257 [] ?W 5 0 [])) = [5, 5 + ?W]"
    by (simp add: window_start_def numeral_2_eq_2)
  have "unat ?W = nat (sint (globalSize default_options)) * nat (sint (workSetSize default_options))"
    using t pos by simp
  then have 2: "unat ?W = 1073741824"
    by (simp add: default_options_def)
  from 1 2 show ?thesis by simp
qed

subsection \<open>Runs on the concrete data\<close>

lemma read_target_bytes_replicate:
  "read_target_bytes hexchar2int (replicate 64 c) =
     Inr (replicate 32 (push_bit 4 (hexchar2int c) OR hexchar2int c))"
proof -
  have "map (\<lambda>i. push_bit 4 (hexchar2int (replicate 64 c ! (2 * i))) OR
                  hexchar2int (replicate 64 c ! (2 * i + 1))) [0..<32]
        = map (\<lambda>i. push_bit 4 (hexchar2int c) OR hexchar2int c) [0..<32]"
    by (rule map_cong) simp_all
  then show ?thesis
    by (simp add: read_target_bytes_def map_replicate_const)
qed

lemma sample_target_read:
  "read_target_bytes sample_hexchar2int sample_target_str = Inr (replicate 32 255)"
  by (simp add: sample_target_str_def read_target_bytes_replicate sample_hexchar2int_def
      digit_value_def)

lemma sample_zero_target_read:
  "read_target_bytes sample_hexchar2int sample_zero_target_str = Inr (replicate 32 0)"
  by (simp add: sample_zero_target_str_def read_target_bytes_replicate sample_hexchar2int_def
      digit_value_def)

lemma big_endian_foldl_zeros:
  "foldl (\<lambda>acc b. acc * 256 + unat b) a (replicate n (0 :: byte)) = a * 256 ^ n"
  by (induction n arbitrary: a) simp_all

lemma big_endian_foldl_ge: "a \<le> foldl (\<lambda>acc b. acc * 256 + unat (b :: byte)) a bs"
proof (induction bs arbitrary: a)
  case Nil
  show ?case by simp
next
  case (Cons b bs)
  have "a \<le> a * 256 + unat b"
    by simp
  also have "\<dots> \<le> foldl (\<lambda>acc b. acc * 256 + unat b) (a * 256 + unat b) bs"
    by (rule Cons.IH)
  finally show ?case by simp
qed

lemma zero_digest_passes: "passes digest_comparator target (replicate 32 0)"
  by (simp add: passes_def digest_comparator_def big_endian_value_def big_endian_foldl_zeros)

lemma ones_digest_fails: "\<not> passes digest_comparator (replicate 32 0) (replicate 32 255)"
proof -
  have "replicate 32 (255 :: byte) = 255 # replicate 31 255"
    by (simp flip: replicate_Suc)
  then have "big_endian_value (replicate 32 255) = foldl (\<lambda>acc b. acc * 256 + unat b) 255 (replicate 31 (255 :: byte))"
    by (simp add: big_endian_value_def)
  moreover have "255 \<le> foldl (\<lambda>acc b. acc * 256 + unat b) 255 (replicate 31 (255 :: byte))"
    by (rule big_endian_foldl_ge)
  ultimately have "0 < big_endian_value (replicate 32 255)"
    by simp
  moreover have "big_endian_value (replicate 32 0) = 0"
    by (simp add: big_endian_value_def big_endian_foldl_zeros)
  ultimately show ?thesis
    by (simp add: passes_def digest_comparator_def)
qed

lemma unit_window_options:
  "parse_options default_options [(CHR ''n'', ''0''), (CHR ''g'', ''1''), (CHR ''w'', ''1'')] =
     Inr (default_options\<lparr>nonceOverride := Some 0, globalSize := 1, workSetSize := 1\<rparr>)"
proof -
  have "stoi 16 ''0'' = Inr 0" "stoi 10 ''1'' = Inr 1"
    by code_simp+
  then show ?thesis
    by (simp add: apply_option_def)
qed

subsection \<open>The verification of a candidate\<close>

lemma header_bytes_take_drop:
  assumes "b \<le> length header"
  shows "header_bytes header a b = take (b - a) (drop a header)"
proof (rule nth_equalityI)
  show "length (header_bytes header a b) = length (take (b - a) (drop a header))"
    using assms by (simp add: header_bytes_def)
next
  fix i
  assume "i < length (header_bytes header a b)"
  then have "i < b - a"
    by (simp add: header_bytes_def)
  then show "header_bytes header a b ! i = take (b - a) (drop a header) ! i"
    using assms by (simp add: header_bytes_def)
qed

lemma verify_matches_oracle:
  assumes "8 \<le> bufsize" and "bufsize \<le> length buf"
  shows "verify_hash_input e alt found buf bufsize =
         hash_oracle_input e (embedding_of alt) found buf bufsize"
  using assms
  by (simp add: verify_hash_input_def hash_oracle_input_def embedding_of_def
      blake2s_update_def blake2s_init_def header_bytes_take_drop)

lemma read_header_Inr:
  assumes "read_header buf0 input = Inr (buf, bufsize, last_block_size)"
  shows "257 \<le> bufsize \<and> bufsize \<le> 320 \<and> bufsize \<le> length buf"
proof (cases "257 \<le> min (length input) BUF_SIZE \<and> min (length input) BUF_SIZE \<le> 320")
  case True
  then have "257 \<le> length input" "length input \<le> 320"
    by (auto simp add: BUF_SIZE_def)
  then show ?thesis
    using assms read_header_accepts [of input buf0] by auto
next
  case False
  then show ?thesis
    using assms read_header_rejects [of input buf0] by simp
qed

lemma search_loop_printed:
  assumes "search_loop fuel H cmp e cs alt buf bufsize target W s k d = (Printed n h, log)"
  shows "n \<noteq> 0 \<and> log \<noteq> [] \<and> cs (butlast log) (last log) = n \<and>
         cmp target (H (verify_hash_input e alt n buf bufsize)) \<noteq> - 1"
  using assms
proof (induction fuel arbitrary: s k d)
  case 0
  then show ?case by simp
next
  case (Suc fuel)
  show ?case
  proof (cases "cs d s = 0")
    case True
    with Suc.prems have "search_loop fuel H cmp e cs alt buf bufsize target W (s + W) (Suc k) (d @ [s])
                         = (Printed n h, log)"
      by simp
    then show ?thesis by (rule Suc.IH)
  next
    case False
    with Suc.prems show ?thesis
      by (auto simp add: Let_def blake2s_final_def split: if_splits)
  qed
qed

lemma search_loop_bad_nonce:
  assumes "cs d s \<noteq> 0"
    and "cmp target (H (verify_hash_input e alt (cs d s) buf bufsize)) = - 1"
  shows "search_loop (Suc fuel) H cmp e cs alt buf bufsize target W s k d = (Failed BadNonce, d @ [s])"
  using assms by (simp add: Let_def blake2s_final_def)

lemma main_printed:
  assumes "main fuel H cmp hexchar2int e cs urandom buf0 optv args input = (Printed n h, log)"
  shows "\<exists>opts target_str rest target_hash buf bufsize last_block_size start_nonce.
           parse_options default_options optv = Inr opts \<and> args = target_str # rest \<and>
           read_target_bytes hexchar2int target_str = Inr target_hash \<and>
           read_header buf0 input = Inr (buf, bufsize, last_block_size) \<and>
           search_loop fuel H cmp e cs (alternativeNonce opts) buf bufsize target_hash
             (nonce_step_size_of opts) start_nonce 0 [] = (Printed n h, log)"
  using assms
  by (auto simp add: main_def split: if_splits sum.splits list.splits prod.splits)

text \<open>
  C1. A run prints a nonce only if options, target and header were in order, the nonce is
  the non-zero answer of the last dispatch, and its digest, recomputed by the Hash Oracle
  over the header read, passes the comparator against the target. When the candidate the
  backend reports for a window (after windows that brought none) fails that comparison,
  the run ends with \<^verbatim>\<open>exit(-1)\<close>, status 255: nothing is printed and no further window is
  dispatched.
\<close>

theorem verified_before_printed:
  "(main fuel H cmp hexchar2int e cs urandom buf0 optv args input = (Printed n h, log) \<longrightarrow>
      (\<exists>opts target_str rest target_hash buf bufsize last_block_size.
          parse_options default_options optv = Inr opts \<and> args = target_str # rest \<and>
          read_target_bytes hexchar2int target_str = Inr target_hash \<and>
          read_header buf0 input = Inr (buf, bufsize, last_block_size) \<and>
          n \<noteq> 0 \<and> log \<noteq> [] \<and> cs (butlast log) (last log) = n \<and>
          passes cmp target_hash
            (hash_oracle H e (embedding_of (alternativeNonce opts)) n buf bufsize)))
   \<and> (parse_options default_options optv = Inr opts' \<and> args = target_str' # rest' \<and>
      read_target_bytes hexchar2int target_str' = Inr target_hash' \<and>
      read_header buf0 input = Inr (buf', bufsize', last_block_size') \<and>
      initial_start_nonce e (nonceOverride opts') urandom = Inr s0 \<and>
      W = nonce_step_size_of opts' \<and>
      (\<forall>j<k. cs (map (window_start s0 W) [0..<j]) (window_start s0 W j) = 0) \<and>
      cs (map (window_start s0 W) [0..<k]) (window_start s0 W k) = c \<and> c \<noteq> 0 \<and>
      \<not> passes cmp target_hash'
          (hash_oracle H e (embedding_of (alternativeNonce opts')) c buf' bufsize') \<and>
      k < fuel \<longrightarrow>
        main fuel H cmp hexchar2int e cs urandom buf0 optv args input =
          (Failed BadNonce, map (window_start s0 W) [0..<Suc k]) \<and>
        process_end_of BadNonce = Exited 255)"
proof (intro conjI impI)
  assume pr: "main fuel H cmp hexchar2int e cs urandom buf0 optv args input = (Printed n h, log)"
  from main_printed [OF pr] obtain opts target_str rest target_hash buf bufsize last_block_size start_nonce where
    stages: "parse_options default_options optv = Inr opts" "args = target_str # rest"
      "read_target_bytes hexchar2int target_str = Inr target_hash"
      "read_header buf0 input = Inr (buf, bufsize, last_block_size)"
    and loop: "search_loop fuel H cmp e cs (alternativeNonce opts) buf bufsize target_hash
             (nonce_step_size_of opts) start_nonce 0 [] = (Printed n h, log)"
    by blast
  from stages(4) have "8 \<le> bufsize" "bufsize \<le> length buf"
    using read_header_Inr [of buf0 input buf bufsize last_block_size] by simp_all
  then have "verify_hash_input e (alternativeNonce opts) n buf bufsize =
             hash_oracle_input e (embedding_of (alternativeNonce opts)) n buf bufsize"
    by (rule verify_matches_oracle)
  with search_loop_printed [OF loop]
  have "n \<noteq> 0 \<and> log \<noteq> [] \<and> cs (butlast log) (last log) = n \<and>
        passes cmp target_hash (hash_oracle H e (embedding_of (alternativeNonce opts)) n buf bufsize)"
    by (simp add: passes_def hash_oracle_def)
  with stages show "\<exists>opts target_str rest target_hash buf bufsize last_block_size.
          parse_options default_options optv = Inr opts \<and> args = target_str # rest \<and>
          read_target_bytes hexchar2int target_str = Inr target_hash \<and>
          read_header buf0 input = Inr (buf, bufsize, last_block_size) \<and>
          n \<noteq> 0 \<and> log \<noteq> [] \<and> cs (butlast log) (last log) = n \<and>
          passes cmp target_hash
            (hash_oracle H e (embedding_of (alternativeNonce opts)) n buf bufsize)"
    by blast
next
  assume a: "parse_options default_options optv = Inr opts' \<and> args = target_str' # rest' \<and>
      read_target_bytes hexchar2int target_str' = Inr target_hash' \<and>
      read_header buf0 input = Inr (buf', bufsize', last_block_size') \<and>
      initial_start_nonce e (nonceOverride opts') urandom = Inr s0 \<and>
      W = nonce_step_size_of opts' \<and>
      (\<forall>j<k. cs (map (window_start s0 W) [0..<j]) (window_start s0 W j) = 0) \<and>
      cs (map (window_start s0 W) [0..<k]) (window_start s0 W k) = c \<and> c \<noteq> 0 \<and>
      \<not> passes cmp target_hash'
          (hash_oracle H e (embedding_of (alternativeNonce opts')) c buf' bufsize') \<and>
      k < fuel"
  let ?alt = "alternativeNonce opts'"
  let ?d = "map (window_start s0 W) [0..<k]"
  from a have "8 \<le> bufsize'" "bufsize' \<le> length buf'"
    using read_header_Inr [of buf0 input buf' bufsize' last_block_size'] by simp_all
  then have "verify_hash_input e ?alt c buf' bufsize' =
             hash_oracle_input e (embedding_of ?alt) c buf' bufsize'"
    by (rule verify_matches_oracle)
  moreover from a have c: "cs ?d (window_start s0 W k) = c"
    and cnz: "c \<noteq> 0"
    and np: "\<not> passes cmp target_hash'
          (hash_oracle H e (embedding_of (alternativeNonce opts')) c buf' bufsize')"
    by blast+
  ultimately have "cmp target_hash' (H (verify_hash_input e ?alt c buf' bufsize')) = - 1"
    by (simp add: passes_def hash_oracle_def)
  then have bad: "cmp target_hash' (H (verify_hash_input e ?alt (cs ?d (window_start s0 W k)) buf' bufsize')) = - 1"
    by (simp only: c)
  from c cnz have nz: "cs ?d (window_start s0 W k) \<noteq> 0"
    by simp
  from a have misses: "\<forall>j<k. cs (map (window_start s0 W) [0..<j]) (window_start s0 W j) = 0"
    by blast
  from a obtain m where m: "fuel = k + Suc m"
    by (metis add_Suc_right less_iff_Suc_add)
  from a have "main fuel H cmp hexchar2int e cs urandom buf0 optv args input =
      search_loop fuel H cmp e cs ?alt buf' bufsize' target_hash' (nonce_step_size_of opts') s0 0 []"
    by (intro main_reaches_search) blast+
  also from a have "\<dots> = search_loop fuel H cmp e cs ?alt buf' bufsize' target_hash' W s0 0 []"
    by simp
  also have "\<dots> = search_loop (Suc m) H cmp e cs ?alt buf' bufsize' target_hash' W
                    (window_start s0 W k) (0 + k) ([] @ ?d)"
    unfolding m using misses by (intro search_loop_misses) simp
  also have "\<dots> = (Failed BadNonce, ([] @ ?d) @ [window_start s0 W k])"
    using nz bad by (intro search_loop_bad_nonce) simp_all
  finally show "main fuel H cmp hexchar2int e cs urandom buf0 optv args input =
          (Failed BadNonce, map (window_start s0 W) [0..<Suc k])"
    by simp
next
  show "process_end_of BadNonce = Exited 255"
    by simp
qed

lemma override_zero_start:
  "initial_start_nonce e (nonceOverride (default_options\<lparr>nonceOverride := Some 0\<rparr>)) urandom = Inr 0"
  by (simp add: initial_start_nonce_def)

lemma sample_run_prints:
  "main 1 zero_digest digest_comparator sample_hexchar2int LittleEndian (reporting_backend 5) None
     sample_buf0 [(CHR ''n'', ''0'')] [sample_target_str] sample_header
   = (Printed 5 1073741824, [0])"
proof -
  let ?opts = "default_options\<lparr>nonceOverride := Some 0\<rparr>"
  let ?buf = "sample_header @ replicate 63 0 @ drop 320 sample_buf0"
  have "main 1 zero_digest digest_comparator sample_hexchar2int LittleEndian (reporting_backend 5) None
     sample_buf0 [(CHR ''n'', ''0'')] [sample_target_str] sample_header =
     search_loop 1 zero_digest digest_comparator LittleEndian (reporting_backend 5)
       (alternativeNonce ?opts) ?buf 257 (replicate 32 255) (nonce_step_size_of ?opts) 0 0 []"
    using sample_options sample_target_read sample_header_read override_zero_start
    by (intro main_reaches_search) simp_all
  also have "\<dots> = (Printed 5 1073741824, [0])"
    using zero_digest_passes [of "replicate 32 255"]
    by (simp add: reporting_backend_def blake2s_final_def zero_digest_def passes_def
        nonce_step_size_of_def default_options_def)
  finally show ?thesis .
qed

theorem verified_before_printed_witness:
  "main 1 zero_digest digest_comparator sample_hexchar2int LittleEndian (reporting_backend 5) None
     sample_buf0 [(CHR ''n'', ''0'')] [sample_target_str] sample_header
     = (Printed 5 1073741824, [0])
   \<and> passes digest_comparator (replicate 32 255)
       (hash_oracle zero_digest LittleEndian Prefix 5
          (sample_header @ replicate 63 0 @ drop 320 sample_buf0) 257)
   \<and> main 1 ones_digest digest_comparator sample_hexchar2int LittleEndian (reporting_backend 5) None
       sample_buf0 [(CHR ''n'', ''0'')] [sample_zero_target_str] sample_header
     = (Failed BadNonce, [0])"
proof -
  let ?opts = "default_options\<lparr>nonceOverride := Some 0\<rparr>"
  let ?buf = "sample_header @ replicate 63 0 @ drop 320 sample_buf0"
  let ?W = "nonce_step_size_of ?opts"
  note p = verified_before_printed [of 1 zero_digest digest_comparator sample_hexchar2int LittleEndian
      "reporting_backend 5" None sample_buf0 "[(CHR ''n'', ''0'')]" "[sample_target_str]"
      sample_header 5 1073741824 "[0]", THEN conjunct1, rule_format, OF sample_run_prints]
  then obtain opts target_str rest target_hash buf bufsize last_block_size where
    o: "parse_options default_options [(CHR ''n'', ''0'')] = Inr opts"
    and a: "[sample_target_str] = target_str # rest"
    and t: "read_target_bytes sample_hexchar2int target_str = Inr target_hash"
    and h: "read_header sample_buf0 sample_header = Inr (buf, bufsize, last_block_size)"
    and ps: "passes digest_comparator target_hash
            (hash_oracle zero_digest LittleEndian (embedding_of (alternativeNonce opts)) 5 buf bufsize)"
    by blast
  from o sample_options have "opts = ?opts"
    by simp
  moreover from a t sample_target_read have "target_hash = replicate 32 255"
    by simp
  moreover from h sample_header_read have "buf = ?buf" "bufsize = 257"
    by simp_all
  ultimately have 2: "passes digest_comparator (replicate 32 255)
       (hash_oracle zero_digest LittleEndian Prefix 5 ?buf 257)"
    using ps by (simp add: embedding_of_def default_options_def)
  have np: "\<not> passes digest_comparator (replicate 32 0)
       (hash_oracle ones_digest LittleEndian (embedding_of (alternativeNonce ?opts)) 5 ?buf 257)"
    using ones_digest_fails by (simp add: hash_oracle_def ones_digest_def)
  have "main (Suc 0) ones_digest digest_comparator sample_hexchar2int LittleEndian (reporting_backend 5) None
       sample_buf0 [(CHR ''n'', ''0'')] [sample_zero_target_str] sample_header
     = (Failed BadNonce, map (window_start 0 ?W) [0..<Suc 0])"
    using verified_before_printed [of "Suc 0" ones_digest digest_comparator sample_hexchar2int LittleEndian
      "reporting_backend 5" None sample_buf0 "[(CHR ''n'', ''0'')]" "[sample_zero_target_str]"
      sample_header _ _ _ ?opts sample_zero_target_str "[]" "replicate 32 0" ?buf 257 1 0 ?W 0 5,
      THEN conjunct2]
      sample_options sample_zero_target_read sample_header_read override_zero_start np
    by (simp add: reporting_backend_def)
  then have 3: "main 1 ones_digest digest_comparator sample_hexchar2int LittleEndian (reporting_backend 5) None
       sample_buf0 [(CHR ''n'', ''0'')] [sample_zero_target_str] sample_header
     = (Failed BadNonce, [0])"
    by (simp add: window_start_def)
  from sample_run_prints 2 3 show ?thesis
    by blast
qed

subsection \<open>The candidate 0\<close>

lemma dispatchWindow_unit_zero:
  "dispatchWindow H cmp e mode header L target_hash 1 earlier 0 = 0"
  by (simp add: dispatchWindow_def window_nonces_def)

lemma unit_window_step_size:
  "nonce_step_size_of (default_options\<lparr>nonceOverride := Some 0, globalSize := 1, workSetSize := 1\<rparr>) = 1"
  by (simp add: nonce_step_size_of_def)

text \<open>
  C3 (as amended). With \<^verbatim>\<open>-n 0 -g 1 -w 1\<close> the first window is \<open>[0, 1)\<close>. A backend that
  honours the dispatch contract answers 0 for it whether nonce 0 fails or satisfies the
  target, the engine reads 0 as "none found", and so the second window is always dispatched
  at nonce 1. No run, with any backend, prints nonce 0.
\<close>

theorem zero_candidate_is_sentinel:
  "dispatchWindow H cmp e mode header L target_hash 1 earlier 0 = 0
   \<and> (read_header buf0 input = Inr (buf, bufsize, last_block_size) \<and>
      read_target_bytes hexchar2int target_str = Inr target_hash' \<longrightarrow>
        (\<exists>xs. snd (main (Suc (Suc fuel)) H cmp hexchar2int e
                      (dispatchWindow H cmp e Prefix buf bufsize target_hash' 1) urandom buf0
                      [(CHR ''n'', ''0''), (CHR ''g'', ''1''), (CHR ''w'', ''1'')]
                      (target_str # rest) input) = 0 # 1 # xs))
   \<and> (\<forall>h log. main fuel' H cmp hexchar2int e cs urandom buf0 optv args input \<noteq> (Printed 0 h, log))"
proof (intro conjI impI allI)
  show "dispatchWindow H cmp e mode header L target_hash 1 earlier 0 = 0"
    by (rule dispatchWindow_unit_zero)
next
  assume st: "read_header buf0 input = Inr (buf, bufsize, last_block_size) \<and>
      read_target_bytes hexchar2int target_str = Inr target_hash'"
  let ?opts = "default_options\<lparr>nonceOverride := Some 0, globalSize := 1, workSetSize := 1\<rparr>"
  let ?cs = "dispatchWindow H cmp e Prefix buf bufsize target_hash' 1"
  have init: "initial_start_nonce e (nonceOverride ?opts) urandom = Inr 0"
    by (simp add: initial_start_nonce_def)
  have "main (Suc (Suc fuel)) H cmp hexchar2int e ?cs urandom buf0
          [(CHR ''n'', ''0''), (CHR ''g'', ''1''), (CHR ''w'', ''1'')] (target_str # rest) input =
        search_loop (Suc (Suc fuel)) H cmp e ?cs (alternativeNonce ?opts) buf bufsize target_hash'
          (nonce_step_size_of ?opts) 0 0 []"
    using st main_reaches_search [OF unit_window_options refl _ _ init] by blast
  also have "\<dots> = search_loop (Suc fuel) H cmp e ?cs (alternativeNonce ?opts) buf bufsize target_hash'
          1 1 1 [0]"
    by (simp add: unit_window_step_size dispatchWindow_unit_zero del: One_nat_def)
  finally have "main (Suc (Suc fuel)) H cmp hexchar2int e ?cs urandom buf0
          [(CHR ''n'', ''0''), (CHR ''g'', ''1''), (CHR ''w'', ''1'')] (target_str # rest) input =
        search_loop (Suc fuel) H cmp e ?cs (alternativeNonce ?opts) buf bufsize target_hash' 1 1 1 [0]" .
  moreover obtain xs where
    "snd (search_loop (Suc fuel) H cmp e ?cs (alternativeNonce ?opts) buf bufsize target_hash' 1 1 1 [0])
       = [0] @ 1 # xs"
    using search_loop_first_dispatch by blast
  ultimately show "\<exists>xs. snd (main (Suc (Suc fuel)) H cmp hexchar2int e ?cs urandom buf0
                      [(CHR ''n'', ''0''), (CHR ''g'', ''1''), (CHR ''w'', ''1'')]
                      (target_str # rest) input) = 0 # 1 # xs"
    by simp
next
  fix h log
  show "main fuel' H cmp hexchar2int e cs urandom buf0 optv args input \<noteq> (Printed 0 h, log)"
  proof
    assume "main fuel' H cmp hexchar2int e cs urandom buf0 optv args input = (Printed 0 h, log)"
    from main_printed [OF this] obtain opts target_hash buf bufsize start_nonce where
      "search_loop fuel' H cmp e cs (alternativeNonce opts) buf bufsize target_hash
             (nonce_step_size_of opts) start_nonce 0 [] = (Printed 0 h, log)"
      by blast
    from search_loop_printed [OF this] show False
      by simp
  qed
qed

theorem zero_candidate_is_sentinel_witness:
  "\<exists>xs. snd (main 2 zero_digest digest_comparator sample_hexchar2int LittleEndian
        (dispatchWindow zero_digest digest_comparator LittleEndian Prefix
           (sample_header @ replicate 63 0 @ drop 320 sample_buf0) 257 (replicate 32 255) 1)
        None sample_buf0 [(CHR ''n'', ''0''), (CHR ''g'', ''1''), (CHR ''w'', ''1'')]
        [sample_target_str] sample_header) = 0 # 1 # xs"
proof -
  have "\<exists>xs. snd (main (Suc (Suc 0)) zero_digest digest_comparator sample_hexchar2int LittleEndian
        (dispatchWindow zero_digest digest_comparator LittleEndian Prefix
           (sample_header @ replicate 63 0 @ drop 320 sample_buf0) 257 (replicate 32 255) 1)
        None sample_buf0 [(CHR ''n'', ''0''), (CHR ''g'', ''1''), (CHR ''w'', ''1'')]
        [sample_target_str] sample_header) = 0 # 1 # xs"
    using zero_candidate_is_sentinel [of zero_digest digest_comparator LittleEndian Prefix "[]" 0 "[]" "[]"
        sample_buf0 sample_header "sample_header @ replicate 63 0 @ drop 320 sample_buf0" 257 1
        sample_hexchar2int sample_target_str "replicate 32 255" 0 None "[]" 0 silent_backend "[]" "[]",
        THEN conjunct2, THEN conjunct1]
      sample_header_read sample_target_read
    by blast
  then show ?thesis
    by (simp only: numeral_2_eq_2)
qed

text \<open>
  The claim as stated fails: with the target of 32 bytes \<open>0xFF\<close> the digest of nonce 0
  satisfies the target, yet the run with \<^verbatim>\<open>-n 0 -g 1 -w 1\<close> and a backend that honours the
  dispatch contract does not return nonce 0; it moves on to the window at nonce 1 and
  prints nonce 1.
\<close>

theorem zero_solution_skipped_counterexample:
  "passes digest_comparator (replicate 32 255)
     (hash_oracle zero_digest LittleEndian Prefix 0
        (sample_header @ replicate 63 0 @ drop 320 sample_buf0) 257)
   \<and> main 2 zero_digest digest_comparator sample_hexchar2int LittleEndian
        (dispatchWindow zero_digest digest_comparator LittleEndian Prefix
           (sample_header @ replicate 63 0 @ drop 320 sample_buf0) 257 (replicate 32 255) 1)
        None sample_buf0 [(CHR ''n'', ''0''), (CHR ''g'', ''1''), (CHR ''w'', ''1'')]
        [sample_target_str] sample_header
      = (Printed 1 2, [0, 1])"
proof -
  let ?opts = "default_options\<lparr>nonceOverride := Some 0, globalSize := 1, workSetSize := 1\<rparr>"
  let ?buf = "sample_header @ replicate 63 0 @ drop 320 sample_buf0"
  let ?cs = "dispatchWindow zero_digest digest_comparator LittleEndian Prefix ?buf 257 (replicate 32 255) 1"
  have ps: "\<And>n. passes digest_comparator (replicate 32 255)
              (hash_oracle zero_digest LittleEndian Prefix n ?buf 257)"
    using zero_digest_passes by (simp add: hash_oracle_def zero_digest_def)
  have d1: "?cs [0] 1 = 1"
    using ps [of 1] by (simp add: dispatchWindow_def window_nonces_def)
  have init: "initial_start_nonce LittleEndian (nonceOverride ?opts) None = Inr 0"
    by (simp add: initial_start_nonce_def)
  have "main 2 zero_digest digest_comparator sample_hexchar2int LittleEndian ?cs
        None sample_buf0 [(CHR ''n'', ''0''), (CHR ''g'', ''1''), (CHR ''w'', ''1'')]
        [sample_target_str] sample_header =
        search_loop 2 zero_digest digest_comparator LittleEndian ?cs (alternativeNonce ?opts) ?buf 257
          (replicate 32 255) (nonce_step_size_of ?opts) 0 0 []"
    using main_reaches_search [OF unit_window_options refl sample_target_read sample_header_read init]
    by blast
  also have "\<dots> = search_loop (Suc (Suc 0)) zero_digest digest_comparator LittleEndian ?cs
          (alternativeNonce ?opts) ?buf 257 (replicate 32 255) 1 0 0 []"
    by (simp only: numeral_2_eq_2 unit_window_step_size)
  also have "\<dots> = search_loop (Suc 0) zero_digest digest_comparator LittleEndian ?cs
          (alternativeNonce ?opts) ?buf 257 (replicate 32 255) 1 1 1 [0]"
    by (simp add: dispatchWindow_unit_zero del: One_nat_def)
  also have "\<dots> = (Printed 1 2, [0, 1])"
    using zero_digest_passes [of "replicate 32 255"]
    by (simp add: d1 blake2s_final_def zero_digest_def passes_def del: One_nat_def)
  finally show ?thesis
    using ps by simp
qed

subsection \<open>The reference search\<close>

lemma word_succ_unat:
  assumes "i < (w :: u64)"
  shows "unat (i + 1) = Suc (unat i)"
proof -
  from assms have "unat i < unat w"
    by (simp add: word_less_nat_alt)
  moreover have "unat w < 2 ^ 64"
    using unsigned_less [of w] by simp
  ultimately have "(unat i + 1) mod 2 ^ 64 = Suc (unat i)"
    by simp
  then show ?thesis
    by (simp add: unat_word_ariths)
qed

lemma ref_search_loop_evaluated:
  "evaluated (ref_search_loop H cmp e gid nonce0 work_set buf lbs target i st) =
     evaluated st @ map (\<lambda>j. nonce0 + of_nat j) [unat i..<unat work_set]"
proof (induction H cmp e gid nonce0 work_set buf lbs target i st rule: ref_search_loop.induct)
  case (1 H cmp e gid nonce0 work_set buf lbs target i st)
  show ?case
  proof (cases "i < work_set")
    case True
    then have lt: "unat i < unat work_set"
      by (simp add: word_less_nat_alt)
    have suc: "unat (i + 1) = Suc (unat i)"
      using True by (rule word_succ_unat)
    have upt: "[unat i..<unat work_set] = unat i # [Suc (unat i)..<unat work_set]"
      using lt by (rule upt_conv_Cons)
    show ?thesis
      using True "1.IH" [OF True refl refl refl]
      by (subst ref_search_loop.simps) (simp add: Let_def suc upt)
  next
    case False
    then have "unat work_set \<le> unat i"
      by (simp add: word_less_nat_alt)
    with False show ?thesis
      by (subst ref_search_loop.simps) simp
  qed
qed

lemma ref_search_loop_result:
  "result (ref_search_loop H cmp e gid nonce0 work_set buf lbs target i st) slot =
     (if i \<le> slot - gid * work_set \<and> slot - gid * work_set < work_set
      then word_of_int (cmp target (blake2s_final H
             (ref_hash_input e (nonce0 + (slot - gid * work_set)) buf lbs)))
      else result st slot)"
proof (induction H cmp e gid nonce0 work_set buf lbs target i st rule: ref_search_loop.induct)
  case (1 H cmp e gid nonce0 work_set buf lbs target i st)
  let ?j = "slot - gid * work_set"
  show ?case
  proof (cases "i < work_set")
    case True
    have suc: "unat (i + 1) = Suc (unat i)"
      using True by (rule word_succ_unat)
    have slot: "slot = gid * work_set + i \<longleftrightarrow> ?j = i"
      by auto
    have range: "(i + 1 \<le> ?j \<and> ?j < work_set) \<or> ?j = i \<longleftrightarrow> i \<le> ?j \<and> ?j < work_set"
      using True by (auto simp add: word_le_nat_alt word_less_nat_alt suc word_unat_eq_iff)
    show ?thesis
      using True "1.IH" [OF True refl refl refl] range
      by (subst ref_search_loop.simps) (auto simp add: Let_def slot)
  next
    case False
    then have "\<not> (i \<le> ?j \<and> ?j < work_set)"
      by (auto simp add: word_le_nat_alt word_less_nat_alt)
    with False show ?thesis
      by (subst ref_search_loop.simps) auto
  qed
qed

lemma window_nonces_lanes:
  "concat (map (\<lambda>g. window_nonces (S + of_nat g * K) (unat K)) [0..<G]) =
     window_nonces S (G * unat K)"
proof (induction G)
  case 0
  show ?case by (simp add: window_nonces_def)
next
  case (Suc G)
  have "(of_nat (G * unat K) :: u64) = of_nat G * K"
    by simp
  then have "window_nonces S (G * unat K + unat K) =
        window_nonces S (G * unat K) @ window_nonces (S + of_nat G * K) (unat K)"
    using window_nonces_append [of S "G * unat K" "unat K"] by simp
  with Suc.IH show ?case
    by (simp add: add.commute)
qed

lemma lane_slot_unat:
  assumes "unat G * unat K < 2 ^ 64" and "gid < (G :: u64)" and "j < unat (K :: u64)"
  shows "unat (gid * K + of_nat j) = unat gid * unat K + j"
    and "unat gid * unat K + j < unat G * unat K"
proof -
  have g: "unat gid < unat G"
    using assms(2) by (simp add: word_less_nat_alt)
  then have "unat gid * unat K + unat K \<le> unat G * unat K"
    by (metis Suc_leI mult_Suc mult_le_mono1 add.commute)
  with assms(3) show b: "unat gid * unat K + j < unat G * unat K"
    by simp
  with assms(1) have lt: "unat gid * unat K + j < 2 ^ 64"
    by simp
  then have "unat gid * unat K < 2 ^ 64" "j < 2 ^ 64"
    by simp_all
  then have "unat (gid * K) = unat gid * unat K" "unat (of_nat j :: u64) = j"
    by (simp_all add: unat_word_ariths unat_of_nat)
  with lt show "unat (gid * K + of_nat j) = unat gid * unat K + j"
    by (simp add: unat_word_ariths)
qed

lemma lane_slot_inject:
  assumes "unat G * unat K < 2 ^ 64" and "gid < (G :: u64)" and "gid' < G"
    and "j < unat (K :: u64)" and "j' < unat K"
    and "gid * K + of_nat j = gid' * K + of_nat j'"
  shows "gid = gid' \<and> j = j'"
proof -
  have "unat gid * unat K + j = unat gid' * unat K + j'"
    using lane_slot_unat(1) [OF assms(1,2,4)] lane_slot_unat(1) [OF assms(1,3,5)] assms(6)
    by simp
  then have "(j + unat gid * unat K) div unat K = (j' + unat gid' * unat K) div unat K"
    and "(j + unat gid * unat K) mod unat K = (j' + unat gid' * unat K) mod unat K"
    by (simp_all add: add.commute)
  with assms(4,5) show ?thesis
    by (simp add: word_unat_eq_iff)
qed

text \<open>
  C6. For a start nonce \<open>S\<close>, positive sizes \<open>G\<close> and \<open>K\<close> whose product does not overflow
  64 bits, and a lane \<open>gid < G\<close>: \<^verbatim>\<open>ref_search_nonce\<close> hashes exactly the nonces
  \<open>S + gid \<sqdot> K + j\<close> for \<open>0 \<le> j < K\<close>, in increasing \<open>j\<close>; it writes the outcome for \<open>j\<close> to slot
  \<open>gid \<sqdot> K + j\<close>, which lies below \<open>G \<sqdot> K\<close> and differs from every other slot of every lane,
  and leaves all other slots alone; the nonces of the lanes \<open>0, \<dots>, G - 1\<close> in turn are the
  window \<open>[S, S + G \<sqdot> K)\<close> in order, each nonce once.
\<close>

theorem lanes_partition_window:
  assumes G: "0 < G" and K: "0 < K" and no_overflow: "unat G * unat K < 2 ^ 64" and gid: "gid < G"
  shows "evaluated (ref_search_nonce H cmp e gid S K buf lbs target st)
           = evaluated st @ map (\<lambda>j. S + gid * K + of_nat j) [0..<unat K]
       \<and> (\<forall>j<unat K.
            result (ref_search_nonce H cmp e gid S K buf lbs target st) (gid * K + of_nat j)
              = word_of_int (cmp target (blake2s_final H
                  (ref_hash_input e (S + gid * K + of_nat j) buf lbs))) \<and>
            unat (gid * K + of_nat j) = unat gid * unat K + j \<and>
            unat gid * unat K + j < unat G * unat K \<and>
            (\<forall>gid' j'. gid' < G \<and> j' < unat K \<and> gid * K + of_nat j = gid' * K + of_nat j'
                \<longrightarrow> gid' = gid \<and> j' = j))
       \<and> (\<forall>slot. (\<forall>j<unat K. slot \<noteq> gid * K + of_nat j) \<longrightarrow>
            result (ref_search_nonce H cmp e gid S K buf lbs target st) slot = result st slot)
       \<and> concat (map (\<lambda>g. evaluated (ref_search_nonce H cmp e (of_nat g) S K buf lbs target
                                    (st\<lparr>evaluated := []\<rparr>))) [0..<unat G])
           = window_nonces S (unat G * unat K)
       \<and> distinct (window_nonces S (unat G * unat K))"
proof (intro conjI allI impI)
  show "evaluated (ref_search_nonce H cmp e gid S K buf lbs target st)
           = evaluated st @ map (\<lambda>j. S + gid * K + of_nat j) [0..<unat K]"
    by (simp add: ref_search_nonce_def ref_search_loop_evaluated)
next
  fix j
  assume j: "j < unat K"
  moreover have "unat K < 2 ^ 64"
    using unsigned_less [of K] by simp
  ultimately have "j < 2 ^ 64"
    by (rule less_trans)
  then have "unat (of_nat j :: u64) = j"
    by (simp add: unat_of_nat)
  with j have "(of_nat j :: u64) < K"
    by (simp add: word_less_nat_alt)
  then show "result (ref_search_nonce H cmp e gid S K buf lbs target st) (gid * K + of_nat j)
              = word_of_int (cmp target (blake2s_final H
                  (ref_hash_input e (S + gid * K + of_nat j) buf lbs)))"
    by (simp add: ref_search_nonce_def ref_search_loop_result)
  show "unat (gid * K + of_nat j) = unat gid * unat K + j"
    using no_overflow gid j by (rule lane_slot_unat)
  show "unat gid * unat K + j < unat G * unat K"
    using no_overflow gid j by (rule lane_slot_unat)
  fix gid' j'
  assume "gid' < G \<and> j' < unat K \<and> gid * K + of_nat j = gid' * K + of_nat j'"
  then have "gid = gid' \<and> j = j'"
    using lane_slot_inject [OF no_overflow gid _ j, of gid' j'] by blast
  then show "gid' = gid" and "j' = j"
    by simp_all
next
  fix slot
  assume other: "\<forall>j<unat K. slot \<noteq> gid * K + of_nat j"
  have "\<not> slot - gid * K < K"
  proof
    assume lt: "slot - gid * K < K"
    then have "unat (slot - gid * K) < unat K"
      by (simp add: word_less_nat_alt)
    with other have "slot \<noteq> gid * K + of_nat (unat (slot - gid * K))"
      by blast
    then show False
      by simp
  qed
  then show "result (ref_search_nonce H cmp e gid S K buf lbs target st) slot = result st slot"
    by (simp add: ref_search_nonce_def ref_search_loop_result)
next
  have "\<And>g. evaluated (ref_search_nonce H cmp e (of_nat g) S K buf lbs target (st\<lparr>evaluated := []\<rparr>))
          = window_nonces (S + of_nat g * K) (unat K)"
    by (simp add: ref_search_nonce_def ref_search_loop_evaluated window_nonces_def)
  then show "concat (map (\<lambda>g. evaluated (ref_search_nonce H cmp e (of_nat g) S K buf lbs target
                                    (st\<lparr>evaluated := []\<rparr>))) [0..<unat G])
           = window_nonces S (unat G * unat K)"
    by (simp add: window_nonces_lanes)
next
  from no_overflow have "unat G * unat K \<le> 2 ^ 64"
    by simp
  then show "distinct (window_nonces S (unat G * unat K))"
    by (rule window_nonces_distinct)
qed

theorem lanes_partition_window_witness:
  "evaluated (ref_search_nonce zero_digest digest_comparator LittleEndian 1 10 3 sample_header 1
       (replicate 32 255) \<lparr>result = (\<lambda>slot. 7), evaluated = []\<rparr>) = [13, 14, 15]
   \<and> result (ref_search_nonce zero_digest digest_comparator LittleEndian 1 10 3 sample_header 1
       (replicate 32 255) \<lparr>result = (\<lambda>slot. 7), evaluated = []\<rparr>) 2 = 7
   \<and> result (ref_search_nonce zero_digest digest_comparator LittleEndian 1 10 3 sample_header 1
       (replicate 32 255) \<lparr>result = (\<lambda>slot. 7), evaluated = []\<rparr>) 5 = 1
   \<and> concat (map (\<lambda>g. evaluated (ref_search_nonce zero_digest digest_comparator LittleEndian
         (of_nat g) 10 3 sample_header 1 (replicate 32 255) \<lparr>result = (\<lambda>slot. 7), evaluated = []\<rparr>))
       [0..<2]) = [10, 11, 12, 13, 14, 15]"
proof -
  let ?st = "\<lparr>result = (\<lambda>slot. 7 :: byte), evaluated = ([] :: u64 list)\<rparr>"
  have h: "(0 :: u64) < 2" "(0 :: u64) < 3" "unat (2 :: u64) * unat (3 :: u64) < 2 ^ 64" "(1 :: u64) < 2"
    by simp_all
  note t = lanes_partition_window [of 2 3 1 zero_digest digest_comparator LittleEndian 10
      sample_header 1 "replicate 32 255" ?st, OF h]
  have upt3: "[0..<3] = [0, 1, 2 :: nat]" and upt2: "[0..<2] = [0, 1 :: nat]"
    and upt6: "[0..<6] = [0, 1, 2, 3, 4, 5 :: nat]"
    by (simp_all add: upt_rec)
  from t have "evaluated (ref_search_nonce zero_digest digest_comparator LittleEndian 1 10 3 sample_header 1
       (replicate 32 255) ?st) = evaluated ?st @ map (\<lambda>j. 10 + 1 * 3 + of_nat j) [0..<unat (3 :: u64)]"
    by blast
  then have 1: "evaluated (ref_search_nonce zero_digest digest_comparator LittleEndian 1 10 3 sample_header 1
       (replicate 32 255) ?st) = [13, 14, 15]"
    by (simp add: upt3)
  from t have "\<forall>slot. (\<forall>j<unat (3 :: u64). slot \<noteq> 1 * 3 + of_nat j) \<longrightarrow>
            result (ref_search_nonce zero_digest digest_comparator LittleEndian 1 10 3 sample_header 1
              (replicate 32 255) ?st) slot = result ?st slot"
    by blast
  moreover have "\<forall>j<unat (3 :: u64). (2 :: u64) \<noteq> 1 * 3 + of_nat j"
  proof (intro allI impI)
    fix j :: nat
    assume "j < unat (3 :: u64)"
    then have "j = 0 \<or> j = 1 \<or> j = 2"
      by auto
    then show "(2 :: u64) \<noteq> 1 * 3 + of_nat j"
      by auto
  qed
  ultimately have 2: "result (ref_search_nonce zero_digest digest_comparator LittleEndian 1 10 3 sample_header 1
       (replicate 32 255) ?st) 2 = 7"
    by simp
  from t have "\<forall>j<unat (3 :: u64).
            result (ref_search_nonce zero_digest digest_comparator LittleEndian 1 10 3 sample_header 1
              (replicate 32 255) ?st) (1 * 3 + of_nat j)
              = word_of_int (digest_comparator (replicate 32 255) (blake2s_final zero_digest
                  (ref_hash_input LittleEndian (10 + 1 * 3 + of_nat j) sample_header 1)))"
    by blast
  from this [rule_format, of 2]
  have "result (ref_search_nonce zero_digest digest_comparator LittleEndian 1 10 3 sample_header 1
              (replicate 32 255) ?st) (1 * 3 + of_nat 2)
              = word_of_int (digest_comparator (replicate 32 255) (blake2s_final zero_digest
                  (ref_hash_input LittleEndian (10 + 1 * 3 + of_nat 2) sample_header 1)))"
    by simp
  then have 3: "result (ref_search_nonce zero_digest digest_comparator LittleEndian 1 10 3 sample_header 1
       (replicate 32 255) ?st) 5 = 1"
    using zero_digest_passes [of "replicate 32 255"]
    by (simp add: blake2s_final_def zero_digest_def passes_def digest_comparator_def split: if_splits)
  from t have "concat (map (\<lambda>g. evaluated (ref_search_nonce zero_digest digest_comparator LittleEndian
         (of_nat g) 10 3 sample_header 1 (replicate 32 255) (?st\<lparr>evaluated := []\<rparr>)))
       [0..<unat (2 :: u64)]) = window_nonces 10 (unat (2 :: u64) * unat (3 :: u64))"
    by blast
  then have 4: "concat (map (\<lambda>g. evaluated (ref_search_nonce zero_digest digest_comparator LittleEndian
         (of_nat g) 10 3 sample_header 1 (replicate 32 255) ?st))
       [0..<2]) = [10, 11, 12, 13, 14, 15]"
    by (simp add: window_nonces_def upt6)
  from 1 2 3 4 show ?thesis
    by blast
qed

subsection \<open>The bytes hashed\<close>

lemma ref_hash_input_bytes:
  "ref_hash_input e n buf lbs = object_bytes e n @ take (unat (320 - 64 + lbs - 8)) buf"
  by (simp add: ref_hash_input_def blake2s_update_def blake2s_init_def)

lemma verify_hash_input_bytes:
  "verify_hash_input e alt n buf bufsize =
     (if alt then take (bufsize - 8) buf @ object_bytes e n
      else object_bytes e n @ take (bufsize - 8) (drop 8 buf))"
  by (simp add: verify_hash_input_def blake2s_update_def blake2s_init_def)

text \<open>
  C2. The digest the program computes is to be the Hash Oracle's at both hashing sites. At
  the verification in \<^verbatim>\<open>main\<close> it is (\<open>verify_matches_oracle\<close>). \<^verbatim>\<open>ref_search_nonce\<close>,
  run on the header of 257 bytes \<open>0, 1, 2, \<dots>\<close> for the single nonce 0, stores the verdict on
  the digest of the nonce followed by header bytes \<open>[0, 249)\<close>, whereas the oracle in prefix
  mode hashes the nonce followed by header bytes \<open>[8, 257)\<close>; the two byte sequences differ.
\<close>

theorem ref_search_hashes_wrong_slice:
  "result (ref_search_nonce H cmp LittleEndian 0 0 1 sample_header 1 target st) 0
     = word_of_int (cmp target (H (le_bytes 0 @ header_bytes sample_header 0 249)))
   \<and> hash_oracle H LittleEndian Prefix 0 sample_header 257
     = H (le_bytes 0 @ header_bytes sample_header 8 257)
   \<and> le_bytes 0 @ header_bytes sample_header 0 249 \<noteq> le_bytes 0 @ header_bytes sample_header 8 257"
proof (intro conjI)
  have len: "length sample_header = 257"
    by (simp add: sample_header_def)
  have "unat (320 - 64 + 1 - 8 :: u32) = 249"
    by simp
  then have "ref_hash_input LittleEndian 0 sample_header 1 = le_bytes 0 @ take 249 sample_header"
    by (simp add: ref_hash_input_bytes object_bytes_def)
  moreover have "header_bytes sample_header 0 249 = take 249 sample_header"
    using header_bytes_take_drop [of 249 sample_header 0] by (simp add: len)
  ultimately have "ref_hash_input LittleEndian 0 sample_header 1 =
        le_bytes 0 @ header_bytes sample_header 0 249"
    by simp
  then show "result (ref_search_nonce H cmp LittleEndian 0 0 1 sample_header 1 target st) 0
     = word_of_int (cmp target (H (le_bytes 0 @ header_bytes sample_header 0 249)))"
    by (simp add: ref_search_nonce_def ref_search_loop_result blake2s_final_def)
next
  show "hash_oracle H LittleEndian Prefix 0 sample_header 257
     = H (le_bytes 0 @ header_bytes sample_header 8 257)"
    by (simp add: hash_oracle_def hash_oracle_input_def object_bytes_def)
next
  have "header_bytes sample_header 0 249 ! 0 = (0 :: byte)"
    by (simp add: header_bytes_def sample_header_def)
  moreover have "header_bytes sample_header 8 257 ! 0 = (8 :: byte)"
    by (simp add: header_bytes_def sample_header_def)
  moreover have "(0 :: byte) \<noteq> 8"
    by simp
  ultimately have "header_bytes sample_header 0 249 \<noteq> header_bytes sample_header 8 257"
    by auto
  then show "le_bytes 0 @ header_bytes sample_header 0 249 \<noteq> le_bytes 0 @ header_bytes sample_header 8 257"
    by simp
qed

text \<open>
  C10. On a host that stores integers least-significant byte first, the eight nonce bytes
  fed to the hash at the reference search and at the verification in either mode are the
  little-endian serialisation of the nonce: byte \<open>i\<close> is \<open>\<lfloor>n / 256^i\<rfloor> mod 256\<close>. The hash
  input is the header slice with these eight bytes put in front (reference search, prefix
  mode) or behind (suffix mode), so it depends on the nonce through them alone, and two
  nonces give the same input exactly when they are equal.
\<close>

theorem nonce_bytes_little_endian:
  assumes "e = LittleEndian"
  shows "length (object_bytes e n) = 8
       \<and> (\<forall>i<8. unat (object_bytes e n ! i) = unat n div 256 ^ i mod 256)
       \<and> ref_hash_input e n buf lbs = object_bytes e n @ take (unat (320 - 64 + lbs - 8)) buf
       \<and> verify_hash_input e False n buf bufsize = object_bytes e n @ take (bufsize - 8) (drop 8 buf)
       \<and> verify_hash_input e True n buf bufsize = take (bufsize - 8) buf @ object_bytes e n
       \<and> (object_bytes e n = object_bytes e n' \<longleftrightarrow> n = n')
       \<and> (ref_hash_input e n buf lbs = ref_hash_input e n' buf lbs \<longleftrightarrow> n = n')
       \<and> (verify_hash_input e alt n buf bufsize = verify_hash_input e alt n' buf bufsize \<longleftrightarrow> n = n')"
proof (intro conjI allI impI)
  show "length (object_bytes e n) = 8"
    by (rule length_object_bytes)
next
  fix i :: nat
  assume "i < 8"
  then show "unat (object_bytes e n ! i) = unat n div 256 ^ i mod 256"
    using assms by (simp add: object_bytes_def le_bytes_value)
next
  show "ref_hash_input e n buf lbs = object_bytes e n @ take (unat (320 - 64 + lbs - 8)) buf"
    by (rule ref_hash_input_bytes)
next
  show "verify_hash_input e False n buf bufsize = object_bytes e n @ take (bufsize - 8) (drop 8 buf)"
    by (simp add: verify_hash_input_bytes)
next
  show "verify_hash_input e True n buf bufsize = take (bufsize - 8) buf @ object_bytes e n"
    by (simp add: verify_hash_input_bytes)
next
  show "object_bytes e n = object_bytes e n' \<longleftrightarrow> n = n'"
    by (rule object_bytes_inj)
next
  show "ref_hash_input e n buf lbs = ref_hash_input e n' buf lbs \<longleftrightarrow> n = n'"
    by (simp add: ref_hash_input_bytes object_bytes_inj)
next
  show "verify_hash_input e alt n buf bufsize = verify_hash_input e alt n' buf bufsize \<longleftrightarrow> n = n'"
    by (simp add: verify_hash_input_bytes object_bytes_inj)
qed

theorem nonce_bytes_little_endian_witness:
  "length (object_bytes LittleEndian 72623859790382856) = 8
   \<and> unat (object_bytes LittleEndian 72623859790382856 ! 0) = 8
   \<and> unat (object_bytes LittleEndian 72623859790382856 ! 7) = 1
   \<and> verify_hash_input LittleEndian True 1 sample_header 257
       \<noteq> verify_hash_input LittleEndian True 2 sample_header 257"
proof -
  note t = nonce_bytes_little_endian [OF refl, of 72623859790382856 sample_header 1 257 _ True]
  from t have bytes: "\<forall>i<8. unat (object_bytes LittleEndian 72623859790382856 ! i) =
                  unat (72623859790382856 :: u64) div 256 ^ i mod 256"
    by blast
  have 0: "unat (object_bytes LittleEndian 72623859790382856 ! 0) = 8"
    using bytes [rule_format, of 0] by simp
  have 7: "unat (object_bytes LittleEndian 72623859790382856 ! 7) = 1"
    using bytes [rule_format, of 7] by simp
  from t have len: "length (object_bytes LittleEndian 72623859790382856) = 8"
    by blast
  have "(verify_hash_input LittleEndian True 1 sample_header 257
       = verify_hash_input LittleEndian True 2 sample_header 257) \<longleftrightarrow> (1 :: u64) = 2"
    using nonce_bytes_little_endian [OF refl, of 1 sample_header 1 257 2 True] by blast
  then have ne: "verify_hash_input LittleEndian True 1 sample_header 257
       \<noteq> verify_hash_input LittleEndian True 2 sample_header 257"
    by simp
  from len 0 7 ne show ?thesis
    by blast
qed

end
